theory Spec2Isabelle
  imports Complex_Main "HOL-Library.AList"
begin

section \<open>Points and numbers\<close>

text \<open>
  A point of \<^verbatim>\<open>erase.js\<close> is an object \<^verbatim>\<open>{x: VALUE, y: VALUE}\<close>. The engine
  never assigns to the \<^verbatim>\<open>x\<close> or \<^verbatim>\<open>y\<close> of a point it was given: it only builds new
  points and stores points in arrays, so a point is a value here. The selectors \<open>px\<close>
  and \<open>py\<close> are the fields \<^verbatim>\<open>x\<close> and \<^verbatim>\<open>y\<close>.

  JavaScript numbers are modelled as real numbers: \<^verbatim>\<open>Math.sqrt\<close> is \<open>sqrt\<close>,
  \<^verbatim>\<open>Math.pow(v, 2)\<close> is \<open>v\<^sup>2\<close>, \<^verbatim>\<open>===\<close> and \<^verbatim>\<open>!==\<close> on numbers are \<open>=\<close> and \<open>\<noteq>\<close>.
  Rounding, NaN and the infinities are not modelled. Where the source can divide by a
  magnitude that is zero, the function's text below says what JavaScript computes there.
\<close>

datatype point = Point (px: real) (py: real)

section \<open>Helper functions of the source\<close>

subsection \<open>cleanPath\<close>

text \<open>
  The \<^verbatim>\<open>while\<close> loop of \<^verbatim>\<open>cleanPath\<close>: \<open>pClean\<close> runs from its start value to
  \<open>length path - 1\<close>, and \<open>path ! pClean\<close> is pushed when it differs from its successor.
  The result is the final \<open>pClean\<close> and the array \<open>cleaned\<close>.
\<close>

function cleanLoop :: "point list \<Rightarrow> nat \<Rightarrow> point list \<Rightarrow> nat \<times> point list" where
  "cleanLoop path pClean cleaned =
     (if pClean < length path - 1
      then cleanLoop path (pClean + 1)
             (if px (path ! pClean) \<noteq> px (path ! (pClean + 1))
                 \<or> py (path ! pClean) \<noteq> py (path ! (pClean + 1))
              then cleaned @ [path ! pClean] else cleaned)
      else (pClean, cleaned))"
  by pat_completeness auto
termination
  by (relation "measure (\<lambda>(path, pClean, cleaned). length path - 1 - pClean)") auto

text \<open>
  \<^verbatim>\<open>cleanPath(path)\<close>. On the empty array the source reads
  \<^verbatim>\<open>path[path.length - 1].x\<close> of \<^verbatim>\<open>undefined\<close> and throws a TypeError: \<open>None\<close>.
  The last comparison of the source reads \<^verbatim>\<open>path[cleaned.length - 1]\<close>, an element of
  \<open>path\<close>, not of \<open>cleaned\<close>; the model does the same.
\<close>

definition cleanPath :: "point list \<Rightarrow> point list option" where
  "cleanPath path =
     (if length path = 1 then Some path
      else if path = [] then None
      else
        (let (pClean, cleaned0) = cleanLoop path 0 [];
             cleaned = (if length path \<noteq> 0 \<and> length cleaned0 = 0
                        then cleaned0 @ [path ! 0] else cleaned0)
         in Some (if px (path ! (length path - 1)) \<noteq> px (path ! (length cleaned - 1))
                     \<or> py (path ! (length path - 1)) \<noteq> py (path ! (length cleaned - 1))
                  then cleaned @ [path ! pClean]
                  else cleaned)))"

subsection \<open>Distances and containment\<close>

definition getDistance :: "real \<Rightarrow> real \<Rightarrow> real \<Rightarrow> real \<Rightarrow> real" where
  "getDistance aX aY bX bY = sqrt ((bX - aX)\<^sup>2 + (bY - aY)\<^sup>2)"

text \<open>\<^verbatim>\<open>withinCircle\<close> returns the number 1 or 0, as the source does.\<close>

definition withinCircle :: "real \<Rightarrow> real \<Rightarrow> real \<Rightarrow> real \<Rightarrow> real \<Rightarrow> nat" where
  "withinCircle x y cX cY r =
     (let dist = getDistance x y cX cY in if dist < r then 1 else 0)"

text \<open>
  \<^verbatim>\<open>withinBox\<close>. When A and B are the same point both magnitudes are zero, the unit
  vectors of the source are \<^verbatim>\<open>0/0 = NaN\<close>, both projections are NaN, every comparison
  with NaN is false, and the source falls through to \<^verbatim>\<open>return 1\<close>: that is the first
  branch below. In every other case the divisors are positive.
\<close>

definition withinBox ::
  "real \<Rightarrow> real \<Rightarrow> real \<Rightarrow> real \<Rightarrow> real \<Rightarrow> real \<Rightarrow> real \<Rightarrow> nat" where
  "withinBox pX pY aX aY bX bY r =
     (let vec_ab = (bX - aX, bY - aY);
          vec_ap = (pX - aX, pY - aY);
          vec_n = (- snd vec_ab, fst vec_ab);
          mag_n = sqrt ((fst vec_n)\<^sup>2 + (snd vec_n)\<^sup>2);
          mag_ab = sqrt ((fst vec_ab)\<^sup>2 + (snd vec_ab)\<^sup>2)
      in if mag_n = 0 \<or> mag_ab = 0 then 1
         else
          (let u_vec_n = (fst vec_n / mag_n, snd vec_n / mag_n);
               u_vec_ab = (fst vec_ab / mag_ab, snd vec_ab / mag_ab);
               ap_proj_ab = fst vec_ap * fst u_vec_ab + snd vec_ap * snd u_vec_ab
           in if ap_proj_ab \<le> 0 \<or> ap_proj_ab \<ge> mag_ab then 0
              else
               (let ap_proj_n = fst vec_ap * fst u_vec_n + snd vec_ap * snd u_vec_n
                in if ap_proj_n \<ge> r \<or> ap_proj_n \<le> - r then 0 else 1)))"

text \<open>The location index: an array of three numbers, each 1 or 0.\<close>

definition withinCapsule ::
  "real \<Rightarrow> real \<Rightarrow> real \<Rightarrow> real \<Rightarrow> real \<Rightarrow> real \<Rightarrow> real \<Rightarrow> nat list" where
  "withinCapsule pX pY aX aY bX bY r =
     [withinCircle pX pY aX aY r, withinCircle pX pY bX bY r, withinBox pX pY aX aY bX bY r]"

text \<open>
  \<^verbatim>\<open>getParallelSegments\<close>: the corners \<^verbatim>\<open>[b0, b1, b2, b3]\<close> of the box. For A = B the
  source's corners have NaN coordinates and the model's are A itself; the only readers
  of the corners are the two calls of \<^verbatim>\<open>getLineIntersection\<close> on the sides b0-b3 and
  b1-b2, which return null in the source (NaN) and in the model (a side of length zero).
\<close>

definition getParallelSegments ::
  "real \<Rightarrow> real \<Rightarrow> real \<Rightarrow> real \<Rightarrow> real \<Rightarrow> point list" where
  "getParallelSegments aX aY bX bY r =
     (let vec_v = (bX - aX, bY - aY);
          vec_n = (- snd vec_v, fst vec_v);
          mag_n = sqrt ((fst vec_n)\<^sup>2 + (snd vec_n)\<^sup>2);
          u_vec_n = (fst vec_n / mag_n, snd vec_n / mag_n);
          b0 = Point (aX + r * fst u_vec_n) (aY + r * snd u_vec_n);
          b1 = Point (aX - r * fst u_vec_n) (aY - r * snd u_vec_n);
          b2 = Point (bX - r * fst u_vec_n) (bY - r * snd u_vec_n);
          b3 = Point (bX + r * fst u_vec_n) (bY + r * snd u_vec_n)
      in [b0, b1, b2, b3])"

subsection \<open>Crossings of a segment with a circle\<close>

text \<open>
  \<^verbatim>\<open>getCircleIntersection\<close>: A inside the circle, B outside. The result \<open>None\<close> is
  the source's \<^verbatim>\<open>null\<close>. (For A = B the source divides zero by zero and returns a point
  with NaN coordinates; the passes call it with A inside and B outside only.)
\<close>

definition getCircleIntersection ::
  "real \<Rightarrow> real \<Rightarrow> real \<Rightarrow> real \<Rightarrow> real \<Rightarrow> real \<Rightarrow> real \<Rightarrow> point option" where
  "getCircleIntersection aX aY bX bY cX cY r =
     (let vec_ac = (cX - aX, cY - aY);
          vec_ab = (bX - aX, bY - aY);
          mag_ab = sqrt ((fst vec_ab)\<^sup>2 + (snd vec_ab)\<^sup>2);
          u_vec_ab = (fst vec_ab / mag_ab, snd vec_ab / mag_ab);
          ac_proj_ab = fst vec_ac * fst u_vec_ab + snd vec_ac * snd u_vec_ab;
          rightPoint = (aX + ac_proj_ab * fst u_vec_ab, aY + ac_proj_ab * snd u_vec_ab);
          distCToRightPoint = sqrt ((cX - fst rightPoint)\<^sup>2 + (cY - snd rightPoint)\<^sup>2);
          b = (if distCToRightPoint = 0 then r else sqrt (r\<^sup>2 - distCToRightPoint\<^sup>2));
          intersection = Point (aX + ac_proj_ab * fst u_vec_ab + b * fst u_vec_ab)
                               (aY + ac_proj_ab * snd u_vec_ab + b * snd u_vec_ab)
      in if px intersection = aX \<and> py intersection = aY then None else Some intersection)"

definition getLength :: "real \<times> real \<Rightarrow> real" where
  "getLength P = sqrt (fst P * fst P + snd P * snd P)"

definition EPS :: real where
  "EPS = 1 / 1000000"

definition getClosestPointOnSegment :: "real \<times> real \<Rightarrow> real \<times> real \<Rightarrow> real \<times> real \<Rightarrow> real \<times> real" where
  "getClosestPointOnSegment A B P =
     (let AB = (fst B - fst A, snd B - snd A);
          len = getLength AB
      in if len < EPS then A
         else
          (let PA = (fst P - fst A, snd P - snd A);
               k = (fst AB * fst PA + snd AB * snd PA) / len
           in if k < 0 then A
              else if k > len then B
              else (fst A + fst AB * k / len, snd A + snd AB * k / len)))"

text \<open>
  \<^verbatim>\<open>getCircleIntersections\<close>: A and B outside the circle. The source computes
  \<open>mag_d\<close> before the test on \<open>dist\<close> and uses it after; for A = B it is NaN in the
  source, and then \<open>closest\<close> is A, so the function returns null whenever A is not
  strictly inside the circle.
\<close>

definition getCircleIntersections ::
  "real \<Rightarrow> real \<Rightarrow> real \<Rightarrow> real \<Rightarrow> real \<Rightarrow> real \<Rightarrow> real \<Rightarrow> (point \<times> point) option" where
  "getCircleIntersections aX aY bX bY cX cY r =
     (let vec_ac = (cX - aX, cY - aY);
          vec_ab = (bX - aX, bY - aY);
          vec_n = (- snd vec_ab, fst vec_ab);
          mag_n = sqrt ((fst vec_n)\<^sup>2 + (snd vec_n)\<^sup>2);
          u_vec_n = (fst vec_n / mag_n, snd vec_n / mag_n);
          mag_d = fst vec_ac * fst u_vec_n + snd vec_ac * snd u_vec_n;
          closest = getClosestPointOnSegment (aX, aY) (bX, bY) (cX, cY);
          dist = getLength (fst closest - cX, snd closest - cY)
      in if dist \<ge> r then None
         else
          (let x = sqrt (r\<^sup>2 - mag_d\<^sup>2);
               vec_cd = (cX - mag_d * fst u_vec_n, cY - mag_d * snd u_vec_n);
               mag_ab = sqrt ((fst vec_ab)\<^sup>2 + (snd vec_ab)\<^sup>2);
               u_vec_ab = (fst vec_ab / mag_ab, snd vec_ab / mag_ab);
               i0 = Point (fst vec_cd - fst u_vec_ab * x) (snd vec_cd - snd u_vec_ab * x);
               i1 = Point (fst vec_cd + fst u_vec_ab * x) (snd vec_cd + snd u_vec_ab * x)
           in if px i0 = aX \<and> py i0 = aY then None else Some (i0, i1)))"

subsection \<open>Crossings of two segments, and of a segment with a capsule\<close>

definition getLineIntersection ::
  "real \<Rightarrow> real \<Rightarrow> real \<Rightarrow> real \<Rightarrow> real \<Rightarrow> real \<Rightarrow> real \<Rightarrow> real \<Rightarrow> point option" where
  "getLineIntersection aX aY bX bY cX cY dX dY =
     (let s1_x = bX - aX; s1_y = bY - aY;
          s2_x = dX - cX; s2_y = dY - cY
      in if (- s2_x * s1_y + s1_x * s2_y) = 0 then None
         else
          (let s = (- s1_y * (aX - cX) + s1_x * (aY - cY)) / (- s2_x * s1_y + s1_x * s2_y);
               t = (s2_x * (aY - cY) - s2_y * (aX - cX)) / (- s2_x * s1_y + s1_x * s2_y)
           in if s \<ge> 0 \<and> s \<le> 1 \<and> t \<ge> 0 \<and> t \<le> 1
              then Some (Point (aX + t * s1_x) (aY + t * s1_y))
              else None))"

text \<open>
  The array \<^verbatim>\<open>intersections\<close> of the two capsule routines holds points and nulls:
  a \<open>point option list\<close>. \<open>pushPair\<close> is \<^verbatim>\<open>if (i) intersections.push(i[0], i[1])\<close>, and
  \<open>closerTo\<close> is one round of the selection loops: the candidate replaces the current
  choice when it is strictly nearer to the point (tX, tY).
\<close>

definition pushPair :: "(point \<times> point) option \<Rightarrow> point option list" where
  "pushPair i = (case i of None \<Rightarrow> [] | Some (i0, i1) \<Rightarrow> [Some i0, Some i1])"

definition closerTo :: "real \<Rightarrow> real \<Rightarrow> point \<Rightarrow> point option \<Rightarrow> point" where
  "closerTo tX tY best cand =
     (case cand of
        None \<Rightarrow> best
      | Some q \<Rightarrow>
          if getDistance (px q) (py q) tX tY < getDistance (px best) (py best) tX tY
          then q else best)"

definition getCapsuleIntersection ::
  "real \<Rightarrow> real \<Rightarrow> nat list \<Rightarrow> real \<Rightarrow> real \<Rightarrow> real \<Rightarrow> real \<Rightarrow> real \<Rightarrow> real \<Rightarrow> real \<Rightarrow> point option" where
  "getCapsuleIntersection aX aY locationIndex bX bY c0_x c0_y c1_x c1_y r =
     (let box = getParallelSegments c0_x c0_y c1_x c1_y r;
          side03 = getLineIntersection aX aY bX bY
                     (px (box ! 0)) (py (box ! 0)) (px (box ! 3)) (py (box ! 3));
          side12 = getLineIntersection aX aY bX bY
                     (px (box ! 1)) (py (box ! 1)) (px (box ! 2)) (py (box ! 2));
          intersections =
            (if locationIndex ! 0 \<noteq> 0 \<and> \<not> locationIndex ! 1 \<noteq> 0 then
               [getCircleIntersection aX aY bX bY c0_x c0_y r, side03, side12]
                 @ pushPair (getCircleIntersections aX aY bX bY c1_x c1_y r)
             else if \<not> locationIndex ! 0 \<noteq> 0 \<and> locationIndex ! 1 \<noteq> 0 then
               [getCircleIntersection aX aY bX bY c1_x c1_y r, side03, side12]
                 @ pushPair (getCircleIntersections aX aY bX bY c0_x c0_y r)
             else if locationIndex ! 0 \<noteq> 0 \<and> locationIndex ! 1 \<noteq> 0 then
               [getCircleIntersection aX aY bX bY c0_x c0_y r, side03, side12,
                getCircleIntersection aX aY bX bY c1_x c1_y r]
             else
               pushPair (getCircleIntersections aX aY bX bY c1_x c1_y r)
                 @ pushPair (getCircleIntersections aX aY bX bY c0_x c0_y r)
                 @ [side03, side12]);
          intersection = foldl (closerTo bX bY) (Point aX aY) intersections
      in if px intersection = aX \<and> py intersection = aY then None else Some intersection)"

definition getCapsuleIntersections ::
  "real \<Rightarrow> real \<Rightarrow> real \<Rightarrow> real \<Rightarrow> real \<Rightarrow> real \<Rightarrow> real \<Rightarrow> real \<Rightarrow> real \<Rightarrow> (point \<times> point) option" where
  "getCapsuleIntersections aX aY bX bY c0_x c0_y c1_x c1_y r =
     (let box = getParallelSegments c0_x c0_y c1_x c1_y r;
          intersections =
            pushPair (getCircleIntersections aX aY bX bY c0_x c0_y r)
              @ pushPair (getCircleIntersections aX aY bX bY c1_x c1_y r)
              @ [getLineIntersection aX aY bX bY
                   (px (box ! 0)) (py (box ! 0)) (px (box ! 3)) (py (box ! 3)),
                 getLineIntersection aX aY bX bY
                   (px (box ! 1)) (py (box ! 1)) (px (box ! 2)) (py (box ! 2))];
          intersection0 = foldl (closerTo aX aY) (Point bX bY) intersections;
          intersection1 = foldl (closerTo bX bY) (Point aX aY) intersections
      in if (px intersection0 = bX \<and> py intersection0 = bY)
            \<or> (px intersection1 = aX \<and> py intersection1 = aY)
         then None else Some (intersection0, intersection1))"

section \<open>Path objects and the array store\<close>

text \<open>
  A path is an object whose properties hold strings, arrays and other values; its
  \<^verbatim>\<open>coords\<close> property holds an array of points. Arrays are mutable and shared by
  reference, and the passes write into them, so arrays live in a store: an address is
  an index into the list of cells, and allocation appends a cell. A property value is a
  string (immutable in JavaScript), an array reference, or a number, which stands for
  every value that is neither a string nor an array. A path object is the list of its
  own properties in \<^verbatim>\<open>for ... in\<close> order (keys distinct).

  The engine assigns properties only on path objects it has created itself
  (\<^verbatim>\<open>newPath.coords = ...\<close>), so path objects are values that hold addresses.
  A path whose \<^verbatim>\<open>coords\<close> is not an array of points is outside the data model of the
  engine; reading its coordinates is \<open>None\<close> here.
\<close>

type_synonym addr = nat

datatype jsval = Str string | Num real | Ref addr

datatype cell = PointArr "point list" | ValArr "jsval list"

type_synonym store = "cell list"

type_synonym pathobj = "(string \<times> jsval) list"

definition coordsOf :: "store \<Rightarrow> pathobj \<Rightarrow> (addr \<times> point list) option" where
  "coordsOf h path =
     (case map_of path ''coords'' of
        Some (Ref a) \<Rightarrow>
          (if a < length h
           then (case h ! a of PointArr ps \<Rightarrow> Some (a, ps) | ValArr vs \<Rightarrow> None)
           else None)
      | _ \<Rightarrow> None)"

definition pointsAt :: "store \<Rightarrow> addr \<Rightarrow> point list option" where
  "pointsAt h a =
     (if a < length h
      then (case h ! a of PointArr ps \<Rightarrow> Some ps | ValArr vs \<Rightarrow> None)
      else None)"

text \<open>\<^verbatim>\<open>arr.slice(b, e)\<close> for \<open>0 \<le> b\<close>: the elements at the indices from \<open>b\<close> up to \<open>e - 1\<close>.\<close>

definition slice :: "nat \<Rightarrow> nat \<Rightarrow> 'a list \<Rightarrow> 'a list" where
  "slice b e xs = take (e - b) (drop b xs)"

subsection \<open>createNewPath\<close>

text \<open>
  The \<^verbatim>\<open>for (var key in path)\<close> loop of \<^verbatim>\<open>createNewPath\<close>: a string is copied by
  \<^verbatim>\<open>slice()\<close> (the same string value), an array is copied by \<^verbatim>\<open>slice()\<close> into a new
  array with the same elements, and a property of any other type is not copied at
  all. \<open>acc\<close> is \<^verbatim>\<open>newCreatedPath\<close>.
\<close>

fun copyProps :: "store \<Rightarrow> pathobj \<Rightarrow> pathobj \<Rightarrow> (store \<times> pathobj) option" where
  "copyProps h [] acc = Some (h, acc)"
| "copyProps h ((key, v) # rest) acc =
     (case v of
        Str s \<Rightarrow> copyProps h rest (AList.update key (Str s) acc)
      | Ref a \<Rightarrow>
          (if a < length h
           then copyProps (h @ [h ! a]) rest (AList.update key (Ref (length h)) acc)
           else None)
      | Num n \<Rightarrow> copyProps h rest acc)"

definition createNewPath :: "store \<Rightarrow> pathobj \<Rightarrow> (store \<times> pathobj) option" where
  "createNewPath h path = copyProps h path []"

text \<open>
  Modelled from the spec: \<^verbatim>\<open>Array.prototype.clear\<close> is not defined in \<^verbatim>\<open>erase.js\<close>.
  The spec's path cloning utility yields "an independently owned, initially-empty
  coordinate sequence", so \<^verbatim>\<open>newPath.coords.clear()\<close> empties, in place, the array that
  \<^verbatim>\<open>createNewPath\<close> has just allocated for \<^verbatim>\<open>newPath.coords\<close>.
\<close>

definition clear :: "store \<Rightarrow> addr \<Rightarrow> store" where
  "clear h a = h[a := (case h ! a of PointArr ps \<Rightarrow> PointArr [] | ValArr vs \<Rightarrow> ValArr [])]"

section \<open>The two passes\<close>

text \<open>
  The state of one call of \<^verbatim>\<open>pointErase\<close> or \<^verbatim>\<open>capsuleErase\<close>: the store, the
  array \<^verbatim>\<open>newPaths\<close>, the object \<^verbatim>\<open>newPath\<close>, and the cursors \<^verbatim>\<open>i\<close> and \<^verbatim>\<open>last\<close>.
\<close>

record walk =
  w_store :: store
  w_newPaths :: "pathobj list"
  w_newPath :: pathobj
  w_i :: nat
  w_last :: nat

text \<open>
  \<open>assignCoords\<close> is \<^verbatim>\<open>newPath.coords = path.coords.slice(...)\<close> together with the
  \<^verbatim>\<open>push\<close> that may follow it: the new array, with its final elements, is allocated and
  \<^verbatim>\<open>newPath.coords\<close> refers to it. \<open>pushCopy\<close> is
  \<^verbatim>\<open>newPaths.push(createNewPath(newPath))\<close> and \<open>pushNewPath\<close> is \<^verbatim>\<open>newPaths.push(newPath)\<close>.
\<close>

definition assignCoords :: "walk \<Rightarrow> point list \<Rightarrow> walk" where
  "assignCoords s cs =
     s\<lparr>w_store := w_store s @ [PointArr cs],
       w_newPath := AList.update ''coords'' (Ref (length (w_store s))) (w_newPath s)\<rparr>"

definition pushCopy :: "walk \<Rightarrow> walk option" where
  "pushCopy s =
     (case createNewPath (w_store s) (w_newPath s) of
        None \<Rightarrow> None
      | Some (h, q) \<Rightarrow> Some (s\<lparr>w_store := h, w_newPaths := w_newPaths s @ [q]\<rparr>))"

definition pushNewPath :: "walk \<Rightarrow> walk" where
  "pushNewPath s = s\<lparr>w_newPaths := w_newPaths s @ [w_newPath s]\<rparr>"

text \<open>\<^verbatim>\<open>path.coords[i] = x\<close>, where \<open>a\<close> is the address of \<^verbatim>\<open>path.coords\<close>.\<close>

definition writeCoord :: "addr \<Rightarrow> point list \<Rightarrow> nat \<Rightarrow> point \<Rightarrow> walk \<Rightarrow> walk" where
  "writeCoord a ps i x s = s\<lparr>w_store := (w_store s)[a := PointArr (ps[i := x])]\<rparr>"

text \<open>
  The both-outside branch after a pair of crossings was found; it is the same text in
  both passes. \<open>ps\<close> is \<^verbatim>\<open>path.coords\<close> as the iteration found it. Reading the last
  element of an empty slice would be a TypeError (\<open>None\<close>).
\<close>

definition splitAt :: "addr \<Rightarrow> point list \<Rightarrow> point \<times> point \<Rightarrow> walk \<Rightarrow> walk option" where
  "splitAt a ps possIntersects s =
     (let i = w_i s; last = w_last s;
          cs0 = slice last (i + 1) ps
      in if cs0 = [] then None
         else
          (let cs = (if px (cs0 ! (length cs0 - 1)) \<noteq> px (fst possIntersects)
                        \<or> py (cs0 ! (length cs0 - 1)) \<noteq> py (fst possIntersects)
                     then cs0 @ [fst possIntersects] else cs0);
               s1 = assignCoords s cs
           in case (if length cs > 1 then pushCopy s1 else Some s1) of
                None \<Rightarrow> None
              | Some s2 \<Rightarrow>
                  (let ps' = ps[i := snd possIntersects];
                       s3 = writeCoord a ps i (snd possIntersects) s2;
                       i' = (if px (ps' ! (i + 1)) = px (snd possIntersects)
                                \<and> py (ps' ! (i + 1)) = py (snd possIntersects)
                             then i + 1 else i)
                   in Some (s3\<lparr>w_i := i', w_last := i'\<rparr>))))"

text \<open>One iteration of the \<^verbatim>\<open>while\<close> loop of \<^verbatim>\<open>pointErase\<close>.\<close>

definition pointStep :: "real \<Rightarrow> real \<Rightarrow> real \<Rightarrow> addr \<Rightarrow> point list \<Rightarrow> walk \<Rightarrow> walk option" where
  "pointStep eX eY eraseRadius a ps s =
     (let i = w_i s; last = w_last s;
          p0 = ps ! i; p1 = ps ! (i + 1);
          p0_withinCircle = withinCircle (px p0) (py p0) eX eY eraseRadius;
          p1_withinCircle = withinCircle (px p1) (py p1) eX eY eraseRadius
      in if p0_withinCircle \<noteq> 0 \<and> p1_withinCircle \<noteq> 0
         then Some (s\<lparr>w_i := i + 1, w_last := i + 1\<rparr>)
         else if p0_withinCircle \<noteq> 0 \<and> \<not> p1_withinCircle \<noteq> 0 then
           (case getCircleIntersection (px p0) (py p0) (px p1) (py p1) eX eY eraseRadius of
              Some x \<Rightarrow> Some ((writeCoord a ps i x s)\<lparr>w_last := i\<rparr>)
            | None \<Rightarrow> Some (s\<lparr>w_i := i + 1\<rparr>))
         else if \<not> p0_withinCircle \<noteq> 0 \<and> p1_withinCircle \<noteq> 0 then
           (case getCircleIntersection (px p1) (py p1) (px p0) (py p0) eX eY eraseRadius of
              Some x \<Rightarrow>
                (case pushCopy (assignCoords s (slice last (i + 1) ps @ [x])) of
                   None \<Rightarrow> None
                 | Some s' \<Rightarrow> Some (s'\<lparr>w_i := i + 1, w_last := i + 1\<rparr>))
            | None \<Rightarrow> Some (s\<lparr>w_i := i + 1, w_last := i + 1\<rparr>))
         else
           (case getCircleIntersections (px p0) (py p0) (px p1) (py p1) eX eY eraseRadius of
              Some possIntersects \<Rightarrow> splitAt a ps possIntersects s
            | None \<Rightarrow> Some (s\<lparr>w_i := i + 1\<rparr>)))"

text \<open>
  The \<^verbatim>\<open>while (i < path.coords.length - 1)\<close> loop. Every iteration reads
  \<^verbatim>\<open>path.coords\<close> from the store again. Nothing in the source bounds the number of
  iterations, so the loop is a partial function: \<open>None\<close> when it does not return
  (or when an iteration throws).
\<close>

partial_function (option) pointLoop :: "real \<Rightarrow> real \<Rightarrow> real \<Rightarrow> addr \<Rightarrow> walk \<Rightarrow> walk option" where
  "pointLoop eX eY eraseRadius a s =
     (case pointsAt (w_store s) a of
        None \<Rightarrow> None
      | Some ps \<Rightarrow>
          if w_i s < length ps - 1
          then (case pointStep eX eY eraseRadius a ps s of
                  None \<Rightarrow> None
                | Some s' \<Rightarrow> pointLoop eX eY eraseRadius a s')
          else Some s)"

text \<open>
  \<open>newShell\<close> is \<^verbatim>\<open>var newPath = createNewPath(path); newPath.coords.clear();\<close>.
  \<open>flush\<close> is the text after the loop, \<^verbatim>\<open>if (last !== i) { ... }\<close>; \<open>copy\<close> says whether
  the pass pushes \<^verbatim>\<open>createNewPath(newPath)\<close> (capsuleErase) or \<^verbatim>\<open>newPath\<close> itself
  (pointErase).
\<close>

definition newShell :: "store \<Rightarrow> pathobj \<Rightarrow> (store \<times> pathobj) option" where
  "newShell h path =
     (case createNewPath h path of
        None \<Rightarrow> None
      | Some (h1, newPath) \<Rightarrow>
          (case map_of newPath ''coords'' of
             Some (Ref b) \<Rightarrow> Some (clear h1 b, newPath)
           | _ \<Rightarrow> None))"

definition flush :: "bool \<Rightarrow> addr \<Rightarrow> walk \<Rightarrow> walk option" where
  "flush copy a s =
     (if w_last s \<noteq> w_i s then
        (case pointsAt (w_store s) a of
           None \<Rightarrow> None
         | Some ps \<Rightarrow>
             (let cs = slice (w_last s) (length ps) ps;
                  s1 = assignCoords s cs
              in if length cs > 0
                 then (if copy then pushCopy s1 else Some (pushNewPath s1))
                 else Some s1))
      else Some s)"

text \<open>
  \<^verbatim>\<open>pointErase(path)\<close>, a closure over \<^verbatim>\<open>erasePath\<close>, \<^verbatim>\<open>eraseRadius\<close> and
  \<^verbatim>\<open>newPaths\<close>: the store and \<^verbatim>\<open>newPaths\<close> go in and come out.
\<close>

definition pointErase ::
  "point list \<Rightarrow> real \<Rightarrow> store \<times> pathobj list \<Rightarrow> pathobj \<Rightarrow> (store \<times> pathobj list) option" where
  "pointErase erasePath eraseRadius hn path =
     (let eX = px (erasePath ! 0); eY = py (erasePath ! 0);
          h = fst hn; newPaths = snd hn
      in case coordsOf h path of
           None \<Rightarrow> None
         | Some (a, ps) \<Rightarrow>
             if length ps = 1
                \<and> \<not> withinCircle (px (ps ! 0)) (py (ps ! 0)) eX eY eraseRadius \<noteq> 0
             then Some (h, newPaths @ [path])
             else
              (case newShell h path of
                 None \<Rightarrow> None
               | Some (h1, newPath) \<Rightarrow>
                   (case pointLoop eX eY eraseRadius a
                           \<lparr>w_store = h1, w_newPaths = newPaths, w_newPath = newPath,
                            w_i = 0, w_last = 0\<rparr> of
                      None \<Rightarrow> None
                    | Some s \<Rightarrow>
                        (case flush False a s of
                           None \<Rightarrow> None
                         | Some s' \<Rightarrow> Some (w_store s', w_newPaths s')))))"

text \<open>
  One iteration of the loop of \<^verbatim>\<open>capsuleErase\<close>. \<^verbatim>\<open>locationIndex.indexOf(1) !== -1\<close> is
  \<open>1 \<in> set locationIndex\<close>. In the third branch the source advances \<^verbatim>\<open>last\<close> only when a
  crossing was found (\<^verbatim>\<open>else i++\<close>).
\<close>

definition capsuleStep ::
  "point \<Rightarrow> point \<Rightarrow> real \<Rightarrow> addr \<Rightarrow> point list \<Rightarrow> walk \<Rightarrow> walk option" where
  "capsuleStep e0 e1 eraseRadius a ps s =
     (let i = w_i s; last = w_last s;
          p0 = ps ! i; p1 = ps ! (i + 1);
          p1_locationIndex =
            withinCapsule (px p1) (py p1) (px e0) (py e0) (px e1) (py e1) eraseRadius;
          p0_locationIndex =
            withinCapsule (px p0) (py p0) (px e0) (py e0) (px e1) (py e1) eraseRadius
      in if 1 \<in> set p0_locationIndex \<and> 1 \<in> set p1_locationIndex
         then Some (s\<lparr>w_i := i + 1, w_last := i + 1\<rparr>)
         else if 1 \<in> set p0_locationIndex \<and> 1 \<notin> set p1_locationIndex then
           (case getCapsuleIntersection (px p0) (py p0) p0_locationIndex (px p1) (py p1)
                   (px e0) (py e0) (px e1) (py e1) eraseRadius of
              Some x \<Rightarrow> Some ((writeCoord a ps i x s)\<lparr>w_last := i\<rparr>)
            | None \<Rightarrow> Some (s\<lparr>w_i := i + 1\<rparr>))
         else if 1 \<notin> set p0_locationIndex \<and> 1 \<in> set p1_locationIndex then
           (case getCapsuleIntersection (px p1) (py p1) p1_locationIndex (px p0) (py p0)
                   (px e0) (py e0) (px e1) (py e1) eraseRadius of
              Some x \<Rightarrow>
                (case pushCopy (assignCoords s (slice last (i + 1) ps @ [x])) of
                   None \<Rightarrow> None
                 | Some s' \<Rightarrow> Some (s'\<lparr>w_i := i + 1, w_last := i + 1\<rparr>))
            | None \<Rightarrow> Some (s\<lparr>w_i := i + 1\<rparr>))
         else
           (case getCapsuleIntersections (px p0) (py p0) (px p1) (py p1)
                   (px e0) (py e0) (px e1) (py e1) eraseRadius of
              Some possIntersects \<Rightarrow> splitAt a ps possIntersects s
            | None \<Rightarrow> Some (s\<lparr>w_i := i + 1\<rparr>)))"

partial_function (option) capsuleLoop :: "point \<Rightarrow> point \<Rightarrow> real \<Rightarrow> addr \<Rightarrow> walk \<Rightarrow> walk option" where
  "capsuleLoop e0 e1 eraseRadius a s =
     (case pointsAt (w_store s) a of
        None \<Rightarrow> None
      | Some ps \<Rightarrow>
          if w_i s < length ps - 1
          then (case capsuleStep e0 e1 eraseRadius a ps s of
                  None \<Rightarrow> None
                | Some s' \<Rightarrow> capsuleLoop e0 e1 eraseRadius a s')
          else Some s)"

definition capsuleErase ::
  "point list \<Rightarrow> real \<Rightarrow> nat \<Rightarrow> store \<times> pathobj list \<Rightarrow> pathobj
    \<Rightarrow> (store \<times> pathobj list) option" where
  "capsuleErase erasePath eraseRadius eraseIndex hn path =
     (let e0 = erasePath ! eraseIndex; e1 = erasePath ! (eraseIndex + 1);
          h = fst hn; newPaths = snd hn
      in case coordsOf h path of
           None \<Rightarrow> None
         | Some (a, ps) \<Rightarrow>
             if length ps = 1
                \<and> 1 \<notin> set (withinCapsule (px (ps ! 0)) (py (ps ! 0))
                                (px e0) (py e0) (px e1) (py e1) eraseRadius)
             then Some (h, newPaths @ [path])
             else
              (case newShell h path of
                 None \<Rightarrow> None
               | Some (h1, newPath) \<Rightarrow>
                   (case capsuleLoop e0 e1 eraseRadius a
                           \<lparr>w_store = h1, w_newPaths = newPaths, w_newPath = newPath,
                            w_i = 0, w_last = 0\<rparr> of
                      None \<Rightarrow> None
                    | Some s \<Rightarrow>
                        (case flush True a s of
                           None \<Rightarrow> None
                         | Some s' \<Rightarrow> Some (w_store s', w_newPaths s')))))"

section \<open>erase\<close>

text \<open>
  \<open>forPaths f hn paths\<close> is \<^verbatim>\<open>for (p = 0; p < paths.length; p++) f(paths[p])\<close>, and
  \<open>forSegments\<close> is the loop over \<^verbatim>\<open>e\<close>: each round runs \<^verbatim>\<open>capsuleErase\<close> over the
  current \<^verbatim>\<open>paths\<close> with an empty \<^verbatim>\<open>newPaths\<close>, and \<^verbatim>\<open>newPaths\<close> becomes \<^verbatim>\<open>paths\<close>.
\<close>

fun forPaths ::
  "(store \<times> pathobj list \<Rightarrow> pathobj \<Rightarrow> (store \<times> pathobj list) option)
    \<Rightarrow> store \<times> pathobj list \<Rightarrow> pathobj list \<Rightarrow> (store \<times> pathobj list) option" where
  "forPaths f hn [] = Some hn"
| "forPaths f hn (path # paths) =
     (case f hn path of None \<Rightarrow> None | Some hn' \<Rightarrow> forPaths f hn' paths)"

fun forSegments ::
  "point list \<Rightarrow> real \<Rightarrow> store \<times> pathobj list \<Rightarrow> nat list \<Rightarrow> (store \<times> pathobj list) option" where
  "forSegments erasePath eraseRadius hp [] = Some hp"
| "forSegments erasePath eraseRadius hp (e # es) =
     (case forPaths (capsuleErase erasePath eraseRadius e) (fst hp, []) (snd hp) of
        None \<Rightarrow> None
      | Some hn \<Rightarrow> forSegments erasePath eraseRadius hn es)"

text \<open>
  \<^verbatim>\<open>erase(paths, erasePath, eraseRadius)\<close> on the store \<open>h\<close>: the result is the store
  after the call and the returned array of paths. \<^verbatim>\<open>eraseRadius || 20\<close> replaces a
  radius of zero by 20.
\<close>

definition erase ::
  "store \<Rightarrow> pathobj list \<Rightarrow> point list \<Rightarrow> real \<Rightarrow> (store \<times> pathobj list) option" where
  "erase h paths erasePath0 eraseRadius0 =
     (let eraseRadius = (if eraseRadius0 = 0 then 20 else eraseRadius0)
      in case cleanPath erasePath0 of
           None \<Rightarrow> None
         | Some erasePath \<Rightarrow>
             if length erasePath = 1
             then forPaths (pointErase erasePath eraseRadius) (h, []) paths
             else forSegments erasePath eraseRadius (h, paths) [0 ..< length erasePath - 1])"

section \<open>Definitions used in the statements and proofs\<close>

text \<open>
  \<open>adjKeep\<close> keeps every element that differs from its successor: what the loop of
  \<^verbatim>\<open>cleanPath\<close> pushes.
\<close>

fun adjKeep :: "'a list \<Rightarrow> 'a list" where
  "adjKeep (a # b # xs) = (if a \<noteq> b then a # adjKeep (b # xs) else adjKeep (b # xs))"
| "adjKeep _ = []"

declare cleanLoop.simps [simp del]

text \<open>
  \<open>extends h h'\<close>: the store \<open>h'\<close> has every array of \<open>h\<close> at its address, with the
  same elements when it is an array of values and with the same length when it is an
  array of points. \<open>okPath h q\<close>: the \<^verbatim>\<open>coords\<close> of \<open>q\<close> is an array of at least one point.
\<close>

definition sameShape :: "cell \<Rightarrow> cell \<Rightarrow> bool" where
  "sameShape c c' =
     (case c of
        ValArr vs \<Rightarrow> c' = ValArr vs
      | PointArr ps \<Rightarrow> (case c' of PointArr ps' \<Rightarrow> length ps' = length ps | ValArr vs \<Rightarrow> False))"

definition extends :: "store \<Rightarrow> store \<Rightarrow> bool" where
  "extends h h' = (length h \<le> length h' \<and> (\<forall>a < length h. sameShape (h ! a) (h' ! a)))"

definition okPath :: "store \<Rightarrow> pathobj \<Rightarrow> bool" where
  "okPath h q = (case coordsOf h q of None \<Rightarrow> False | Some (a, ps) \<Rightarrow> 1 \<le> length ps)"

text \<open>
  \<open>stepShape a ps s s'\<close> lists the four things one iteration of either loop does to the
  state: it moves the cursors, or overwrites \<^verbatim>\<open>path.coords[i]\<close>, or pushes a copy of
  \<^verbatim>\<open>newPath\<close> with a new non-empty coordinate array, or runs \<open>splitAt\<close>.
  \<open>allOk s\<close> is the invariant of the loops: the keys of \<^verbatim>\<open>newPath\<close> are distinct and
  every path in \<^verbatim>\<open>newPaths\<close> has at least one coordinate.
\<close>

definition stepShape :: "addr \<Rightarrow> point list \<Rightarrow> walk \<Rightarrow> walk \<Rightarrow> bool" where
  "stepShape a ps s s' =
     ((\<exists>i l. s' = s\<lparr>w_i := i, w_last := l\<rparr>)
      \<or> (\<exists>x l. s' = (writeCoord a ps (w_i s) x s)\<lparr>w_last := l\<rparr>)
      \<or> (\<exists>cs s1 i l. cs \<noteq> [] \<and> pushCopy (assignCoords s cs) = Some s1
             \<and> s' = s1\<lparr>w_i := i, w_last := l\<rparr>)
      \<or> (\<exists>x. splitAt a ps x s = Some s'))"

definition allOk :: "walk \<Rightarrow> bool" where
  "allOk s = (distinct (map fst (w_newPath s)) \<and> (\<forall>q \<in> set (w_newPaths s). okPath (w_store s) q))"

definition allOkPaths :: "store \<times> pathobj list \<Rightarrow> bool" where
  "allOkPaths hn = (\<forall>q \<in> set (snd hn). okPath (fst hn) q)"

subsection \<open>Copies of attributes\<close>

text \<open>
  \<open>grows n h h'\<close>: the store \<open>h'\<close> has every cell of \<open>h\<close> from address \<open>n\<close> on, unchanged.
  \<open>carries h src h' q\<close>: the path \<open>q\<close> in the store \<open>h'\<close> carries a one-level copy of
  every property of \<open>src\<close> (as it was in \<open>h\<close>) other than \<^verbatim>\<open>coords\<close>: a string property
  has the same string; an array property is an array allocated after \<open>h\<close> that holds the
  elements the source's array held in \<open>h\<close>; a property of another type, and a property
  the source does not have, is absent. \<open>mirrors\<close> is the weaker relation that also
  holds between a path and itself. \<open>refsIn q lo hi\<close>: every array of \<open>q\<close> has its
  address in \<open>[lo, hi)\<close>. \<open>apart q q'\<close>: no array is a property of both \<open>q\<close> and \<open>q'\<close>.
  \<open>validRefs h q\<close>: every array of \<open>q\<close> exists in \<open>h\<close>. \<open>copyInv\<close> is the invariant of
  the loops for these facts, with \<open>h\<close> the store before the pass and \<open>h1\<close> the store
  after \<^verbatim>\<open>newPath\<close> was created.
\<close>

definition grows :: "nat \<Rightarrow> store \<Rightarrow> store \<Rightarrow> bool" where
  "grows n h h' = (length h \<le> length h' \<and> (\<forall>b. n \<le> b \<and> b < length h \<longrightarrow> h' ! b = h ! b))"

definition carriedAs :: "store \<Rightarrow> store \<Rightarrow> jsval option \<Rightarrow> jsval option \<Rightarrow> bool" where
  "carriedAs h h' v w =
     (case v of
        Some (Str x) \<Rightarrow> w = Some (Str x)
      | Some (Ref a) \<Rightarrow> (\<exists>b. w = Some (Ref b) \<and> length h \<le> b \<and> b < length h' \<and> h' ! b = h ! a)
      | Some (Num n) \<Rightarrow> w = None
      | None \<Rightarrow> w = None)"

definition carries :: "store \<Rightarrow> pathobj \<Rightarrow> store \<Rightarrow> pathobj \<Rightarrow> bool" where
  "carries h src h' q =
     (\<forall>k. k \<noteq> ''coords'' \<longrightarrow> carriedAs h h' (map_of src k) (map_of q k))"

definition refsIn :: "pathobj \<Rightarrow> nat \<Rightarrow> nat \<Rightarrow> bool" where
  "refsIn q lo hi = (\<forall>k b. map_of q k = Some (Ref b) \<longrightarrow> lo \<le> b \<and> b < hi)"

definition apart :: "pathobj \<Rightarrow> pathobj \<Rightarrow> bool" where
  "apart q q' = (\<forall>k k' b. map_of q k = Some (Ref b) \<longrightarrow> map_of q' k' \<noteq> Some (Ref b))"

fun allApart :: "pathobj list \<Rightarrow> bool" where
  "allApart [] = True"
| "allApart (q # qs) = ((\<forall>q' \<in> set qs. apart q q') \<and> allApart qs)"

definition validRefs :: "store \<Rightarrow> pathobj \<Rightarrow> bool" where
  "validRefs h q = (\<forall>k b. map_of q k = Some (Ref b) \<longrightarrow> b < length h)"




definition copyInv :: "store \<Rightarrow> store \<Rightarrow> pathobj \<Rightarrow> pathobj list \<Rightarrow> walk \<Rightarrow> bool" where
  "copyInv h h1 src nps s =
     (distinct (map fst (w_newPath s))
      \<and> length h \<le> length h1 \<and> length h1 \<le> length (w_store s)
      \<and> validRefs (w_store s) (w_newPath s)
      \<and> carries h src (w_store s) (w_newPath s)
      \<and> (\<forall>k b. k \<noteq> ''coords'' \<and> map_of (w_newPath s) k = Some (Ref b) \<longrightarrow> b < length h1)
      \<and> (\<exists>new. w_newPaths s = nps @ new
            \<and> (\<forall>q \<in> set new. carries h src (w_store s) q
                               \<and> refsIn q (length h1) (length (w_store s)))
            \<and> allApart new))"

subsection \<open>A worked example\<close>

text \<open>
  One path from (0,0) to (10,0) with a string property, an array property whose single
  element is another array, a number property and its \<^verbatim>\<open>coords\<close>; the eraser is the
  single point (5,0) with radius 1. \<open>exA_s0\<close>, \<open>exA_s1\<close> and \<open>exA_s2\<close> are the states of
  \<^verbatim>\<open>pointErase\<close> before the loop and after its first and second iteration;
  \<open>exA_final\<close> is the store when \<^verbatim>\<open>erase\<close> returns the two paths \<open>exA_q1\<close>
  and \<open>exA_q2\<close>.
\<close>

definition exA_store :: store where
  "exA_store = [PointArr [Point 0 0, Point 10 0], ValArr [Ref 2], ValArr [Num 1]]"

definition exA_path :: pathobj where
  "exA_path = [(''stroke'', Str ''#000000''), (''dash'', Ref 1), (''width'', Num 3),
               (''coords'', Ref 0)]"

definition exA_s0 :: walk where
  "exA_s0 = \<lparr>w_store = [PointArr [Point 0 0, Point 10 0], ValArr [Ref 2], ValArr [Num 1],
                         ValArr [Ref 2], PointArr []],
             w_newPaths = [],
             w_newPath = [(''stroke'', Str ''#000000''), (''dash'', Ref 3), (''coords'', Ref 4)],
             w_i = 0, w_last = 0\<rparr>"

definition exA_q1 :: pathobj where
  "exA_q1 = [(''stroke'', Str ''#000000''), (''dash'', Ref 6), (''coords'', Ref 7)]"

definition exA_q2 :: pathobj where
  "exA_q2 = [(''stroke'', Str ''#000000''), (''dash'', Ref 3), (''coords'', Ref 8)]"

definition exA_s1 :: walk where
  "exA_s1 = \<lparr>w_store = [PointArr [Point 6 0, Point 10 0], ValArr [Ref 2], ValArr [Num 1],
                         ValArr [Ref 2], PointArr [],
                         PointArr [Point 0 0, Point 4 0], ValArr [Ref 2],
                         PointArr [Point 0 0, Point 4 0]],
             w_newPaths = [exA_q1],
             w_newPath = [(''stroke'', Str ''#000000''), (''dash'', Ref 3), (''coords'', Ref 5)],
             w_i = 0, w_last = 0\<rparr>"

definition exA_s2 :: walk where
  "exA_s2 = exA_s1\<lparr>w_i := 1\<rparr>"

definition exA_final :: store where
  "exA_final = [PointArr [Point 6 0, Point 10 0], ValArr [Ref 2], ValArr [Num 1],
                ValArr [Ref 2], PointArr [],
                PointArr [Point 0 0, Point 4 0], ValArr [Ref 2],
                PointArr [Point 0 0, Point 4 0],
                PointArr [Point 6 0, Point 10 0]]"

subsection \<open>A path that ends inside a capsule\<close>

text \<open>
  The path (-9,4), (3,4) and the trail (0,0), (10,0) with radius 5. The point (3,4) is
  inside the box of the capsule and exactly on the circle around (0,0); (-9,4) is
  outside the capsule. \<open>exB_s0\<close> and \<open>exB_s1\<close> are the states of \<^verbatim>\<open>capsuleErase\<close>
  before and after the only iteration of its loop.
\<close>

definition exB_store :: store where
  "exB_store = [PointArr [Point (- 9) 4, Point 3 4]]"

definition exB_path :: pathobj where
  "exB_path = [(''coords'', Ref 0)]"

definition exB_s0 :: walk where
  "exB_s0 = \<lparr>w_store = [PointArr [Point (- 9) 4, Point 3 4], PointArr []],
             w_newPaths = [], w_newPath = [(''coords'', Ref 1)], w_i = 0, w_last = 0\<rparr>"

definition exB_s1 :: walk where
  "exB_s1 = exB_s0\<lparr>w_i := 1\<rparr>"

definition exB_q :: pathobj where
  "exB_q = [(''coords'', Ref 3)]"

definition exB_final :: store where
  "exB_final = [PointArr [Point (- 9) 4, Point 3 4], PointArr [],
                PointArr [Point (- 9) 4, Point 3 4], PointArr [Point (- 9) 4, Point 3 4]]"

subsection \<open>The diagonal scenario\<close>

text \<open>
  The path (0,0), (100,100) and the single eraser point (50,50) with radius 10.
  \<open>exC_X1\<close> and \<open>exC_X2\<close> are the two crossing points; \<open>exC_s0\<close>, \<open>exC_s1\<close> and
  \<open>exC_s2\<close> are the states of \<^verbatim>\<open>pointErase\<close> before the loop and after its first and
  second iteration.
\<close>

definition exC_X1 :: point where
  "exC_X1 = Point (50 - 5 * sqrt 2) (50 - 5 * sqrt 2)"

definition exC_X2 :: point where
  "exC_X2 = Point (50 + 5 * sqrt 2) (50 + 5 * sqrt 2)"

definition exC_store :: store where
  "exC_store = [PointArr [Point 0 0, Point 100 100]]"

definition exC_path :: pathobj where
  "exC_path = [(''coords'', Ref 0)]"

definition exC_s0 :: walk where
  "exC_s0 = \<lparr>w_store = [PointArr [Point 0 0, Point 100 100], PointArr []],
             w_newPaths = [], w_newPath = [(''coords'', Ref 1)], w_i = 0, w_last = 0\<rparr>"

definition exC_q1 :: pathobj where
  "exC_q1 = [(''coords'', Ref 3)]"

definition exC_q2 :: pathobj where
  "exC_q2 = [(''coords'', Ref 4)]"

definition exC_s1 :: walk where
  "exC_s1 = \<lparr>w_store = [PointArr [exC_X2, Point 100 100], PointArr [],
                         PointArr [Point 0 0, exC_X1], PointArr [Point 0 0, exC_X1]],
             w_newPaths = [exC_q1], w_newPath = [(''coords'', Ref 2)], w_i = 0, w_last = 0\<rparr>"

definition exC_s2 :: walk where
  "exC_s2 = exC_s1\<lparr>w_i := 1\<rparr>"

definition exC_final :: store where
  "exC_final = [PointArr [exC_X2, Point 100 100], PointArr [],
                PointArr [Point 0 0, exC_X1], PointArr [Point 0 0, exC_X1],
                PointArr [exC_X2, Point 100 100]]"

section \<open>Trail cleaning\<close>

lemma cleanLoop_fst: "fst (cleanLoop path i acc) = max i (length path - 1)"
  by (induction path i acc rule: cleanLoop.induct) (subst cleanLoop.simps, auto)

lemma point_neq_iff: "(px a \<noteq> px b \<or> py a \<noteq> py b) = (a \<noteq> b)"
  by (auto simp: point.expand)

lemma point_neq_iff': "(px a = px b \<longrightarrow> py a \<noteq> py b) = (a \<noteq> b)"
  by (auto simp: point.expand)

lemma cleanLoop_step:
  "pClean < length path - 1 \<Longrightarrow>
   cleanLoop path pClean cleaned =
   cleanLoop path (Suc pClean)
     (if path ! pClean \<noteq> path ! Suc pClean then cleaned @ [path ! pClean] else cleaned)"
  by (subst cleanLoop.simps) (simp add: point_neq_iff point_neq_iff')

lemma cleanLoop_stop:
  "\<not> pClean < length path - 1 \<Longrightarrow> cleanLoop path pClean cleaned = (pClean, cleaned)"
  by (subst cleanLoop.simps) simp

lemma cleanLoop_snd:
  "i \<le> length path - 1 \<Longrightarrow> snd (cleanLoop path i acc) = acc @ adjKeep (drop i path)"
proof (induction path i acc rule: cleanLoop.induct)
  case (1 path pClean cleaned)
  show ?case
  proof (cases "pClean < length path - 1")
    case True
    then have lt: "pClean < length path" and lt2: "Suc pClean < length path" by simp_all
    have d2: "drop (Suc pClean) path = path ! Suc pClean # drop (Suc (Suc pClean)) path"
      using lt2 by (simp add: Cons_nth_drop_Suc)
    have d: "drop pClean path = path ! pClean # path ! Suc pClean # drop (Suc (Suc pClean)) path"
      using lt d2 by (metis Cons_nth_drop_Suc)
    from True have le: "pClean + 1 \<le> length path - 1" by simp
    have "snd (cleanLoop path pClean cleaned) =
          (if path ! pClean \<noteq> path ! Suc pClean then cleaned @ [path ! pClean] else cleaned)
            @ adjKeep (drop (Suc pClean) path)"
      using "1.IH"[OF True le] by (simp add: cleanLoop_step[OF True] point_neq_iff point_neq_iff')
    also have "\<dots> = cleaned @ adjKeep (drop pClean path)"
      by (simp add: d d2)
    finally show ?thesis .
  next
    case False
    with "1.prems" have "pClean = length path - 1" by simp
    then have "length (drop pClean path) \<le> 1" by simp
    then have "adjKeep (drop pClean path) = []"
      by (cases "drop pClean path" rule: adjKeep.cases) auto
    with False show ?thesis
      by (simp add: cleanLoop_stop)
  qed
qed

lemma adjKeep_remdups_adj: "xs \<noteq> [] \<Longrightarrow> adjKeep xs @ [last xs] = remdups_adj xs"
  by (induction xs rule: adjKeep.induct) auto

lemma cleanLoop_0: "cleanLoop path 0 [] = (length path - 1, adjKeep path)"
  using cleanLoop_fst[of path 0 "[]"] cleanLoop_snd[of 0 path "[]"]
  by (simp add: prod_eq_iff)

lemma adjKeep_butlast: "xs \<noteq> [] \<Longrightarrow> adjKeep xs = butlast (remdups_adj xs)"
  using adjKeep_remdups_adj[of xs] by (metis butlast_snoc)

lemma last_remdups_adj': "xs \<noteq> [] \<Longrightarrow> last (remdups_adj xs) = last xs"
  using adjKeep_remdups_adj[of xs] by (metis last_snoc)

text \<open>
  What \<^verbatim>\<open>cleanPath\<close> returns on a non-empty trail: its consecutive
  deduplication, or that list without its last point.
\<close>

lemma cleanPath_cases:
  assumes "path \<noteq> []"
  shows "\<exists>c. cleanPath path = Some c \<and> c \<noteq> [] \<and>
             (c = remdups_adj path \<or> (c = butlast (remdups_adj path)))"
proof (cases "length path = 1")
  case True
  then obtain a where "path = [a]" by (cases path) auto
  then show ?thesis by (simp add: cleanPath_def)
next
  case False
  let ?K = "adjKeep path"
  let ?n = "length path"
  have K: "?K @ [last path] = remdups_adj path" using assms by (rule adjKeep_remdups_adj)
  show ?thesis
  proof (cases "?K = []")
    case True
    have "remdups_adj path = [last path]" using K True by simp
    moreover have "hd (remdups_adj path) = hd path" using assms by (simp add: hd_remdups_adj)
    ultimately have "last path = hd path" by simp
    then have eq: "path ! (?n - 1) = path ! 0"
      using assms by (simp add: last_conv_nth hd_conv_nth)
    have "cleanPath path = Some [path ! 0]"
      using False assms True eq by (simp add: cleanPath_def cleanLoop_0)
    moreover have "[path ! 0] = remdups_adj path"
      using \<open>remdups_adj path = [last path]\<close> \<open>last path = hd path\<close> assms
      by (simp add: hd_conv_nth)
    ultimately show ?thesis using assms by (intro exI[of _ "[path ! 0]"]) simp
  next
    case nonempty: False
    have "cleanPath path = Some (if path ! (?n - 1) \<noteq> path ! (length ?K - 1)
                                 then ?K @ [path ! (?n - 1)] else ?K)"
      using False assms nonempty by (simp add: cleanPath_def cleanLoop_0 point_neq_iff point_neq_iff')
    moreover have "?K @ [path ! (?n - 1)] = remdups_adj path"
      using K assms by (simp add: last_conv_nth)
    moreover have "?K = butlast (remdups_adj path)" using assms by (rule adjKeep_butlast)
    ultimately show ?thesis using nonempty by auto
  qed
qed

lemma distinct_adj_butlast: "distinct_adj xs \<Longrightarrow> distinct_adj (butlast xs)"
proof (cases "xs = []")
  case False
  assume "distinct_adj xs"
  then have "distinct_adj (butlast xs @ [last xs])" using False by simp
  then show ?thesis by (rule distinct_adj_appendD1)
qed simp

lemma cleanPath_distinct_adj:
  "path \<noteq> [] \<Longrightarrow> \<exists>c. cleanPath path = Some c \<and> c \<noteq> [] \<and> distinct_adj c"
  using cleanPath_cases[of path] by (auto simp: distinct_adj_butlast)

lemma cleanPath_id:
  assumes "distinct_adj c" "c \<noteq> []"
  shows "cleanPath c = Some c"
proof (cases "length c = 1")
  case True
  then show ?thesis by (simp add: cleanPath_def)
next
  case False
  let ?n = "length c"
  from False assms(2) have n2: "2 \<le> ?n" by (cases c; cases "tl c") auto
  have r: "remdups_adj c = c" using assms by (simp add: distinct_adj_altdef)
  have K: "adjKeep c = butlast c" using adjKeep_butlast[OF assms(2)] r by simp
  have lenK: "length (adjKeep c) = ?n - 1" by (simp add: K)
  have "Suc (?n - 2) < ?n" using n2 by simp
  then have neq: "c ! (?n - 2) \<noteq> c ! Suc (?n - 2)" using assms(1) by (rule distinct_adj_nth[rotated])
  have S: "Suc (?n - 2) = ?n - 1" using n2 by simp
  have "?n - 1 - 1 = ?n - 2" by simp
  then have neq': "c ! (?n - 1) \<noteq> c ! (length (adjKeep c) - 1)"
    using neq S lenK by metis
  have Kne: "adjKeep c \<noteq> []" using lenK n2 by auto
  have "cleanPath c = Some (adjKeep c @ [c ! (?n - 1)])"
    using False assms(2) Kne neq'
    by (simp add: cleanPath_def cleanLoop_0 point_neq_iff point_neq_iff')
  moreover have l: "c ! (?n - 1) = last c" using assms(2) by (simp add: last_conv_nth)
  have "adjKeep c @ [c ! (?n - 1)] = c"
    unfolding K l using assms(2) by simp
  ultimately show ?thesis by simp
qed


text \<open>
  Claim C3 says that \<^verbatim>\<open>cleanPath\<close> returns the consecutive deduplication of every
  non-empty trail (\<open>remdups_adj\<close>: each point equal to its predecessor deleted, nothing
  else). The source compares the last point of the trail with
  \<^verbatim>\<open>path[cleaned.length - 1]\<close> instead of \<^verbatim>\<open>cleaned[cleaned.length - 1]\<close>. On the trail
  (0,0), (0,0), (1,0), (0,0) the loop pushes (0,0) and (1,0), the comparison reads
  \<^verbatim>\<open>path[1]\<close> = (0,0), finds it equal to the last point, and the last point is dropped
  although it differs from its predecessor (1,0).
\<close>

theorem cleanPath_drops_final_point:
  "cleanPath [Point 0 0, Point 0 0, Point 1 0, Point 0 0] = Some [Point 0 0, Point 1 0]
   \<and> remdups_adj [Point 0 0, Point 0 0, Point 1 0, Point 0 0]
       = [Point 0 0, Point 1 0, Point 0 0]"
  by (simp add: cleanPath_def cleanLoop_0)

theorem cleanPath_drops_final_point_witness:
  "cleanPath [Point 0 0, Point 0 0, Point 1 0, Point 0 0]
     \<noteq> Some (remdups_adj [Point 0 0, Point 0 0, Point 1 0, Point 0 0])"
  using cleanPath_drops_final_point by simp

text \<open>
  Claim C8: \<^verbatim>\<open>cleanPath\<close> is idempotent. For every non-empty trail \<open>t\<close>,
  \<^verbatim>\<open>cleanPath(t)\<close> returns a trail \<open>c\<close>, and \<^verbatim>\<open>cleanPath(c)\<close> returns \<open>c\<close> again: the
  same points in the same order.
\<close>

theorem cleanPath_idempotent:
  "t \<noteq> [] \<Longrightarrow> \<exists>c. cleanPath t = Some c \<and> cleanPath c = Some c"
  using cleanPath_distinct_adj[of t] cleanPath_id by auto

theorem cleanPath_idempotent_witness:
  "cleanPath [Point 0 0, Point 0 0, Point 1 0] = Some [Point 0 0, Point 1 0]
   \<and> cleanPath [Point 0 0, Point 1 0] = Some [Point 0 0, Point 1 0]"
proof -
  have ne: "[Point 0 0, Point 0 0, Point 1 0] \<noteq> []" by simp
  have v: "cleanPath [Point 0 0, Point 0 0, Point 1 0] = Some [Point 0 0, Point 1 0]"
    by (simp add: cleanPath_def cleanLoop_0)
  from cleanPath_idempotent[OF ne] v show ?thesis by auto
qed

section \<open>What a call may change in the store\<close>

lemma sameShape_refl [simp]: "sameShape c c"
  by (simp add: sameShape_def split: cell.splits)

lemma sameShape_trans: "sameShape c1 c2 \<Longrightarrow> sameShape c2 c3 \<Longrightarrow> sameShape c1 c3"
  by (auto simp: sameShape_def split: cell.splits)

lemma extends_refl [simp]: "extends h h"
  by (simp add: extends_def)

lemma extends_trans: "extends h1 h2 \<Longrightarrow> extends h2 h3 \<Longrightarrow> extends h1 h3"
  unfolding extends_def by (meson le_trans less_le_trans sameShape_trans)

lemma extends_append [simp]: "extends h (h @ new)"
  by (simp add: extends_def nth_append)

lemma extends_write:
  "pointsAt h a = Some ps \<Longrightarrow> length ps' = length ps \<Longrightarrow> extends h (h[a := PointArr ps'])"
  by (auto simp: extends_def pointsAt_def nth_list_update sameShape_def split: if_splits cell.splits)

lemma copyProps_append: "copyProps h path acc = Some (h', q) \<Longrightarrow> \<exists>new. h' = h @ new"
proof (induction h path acc rule: copyProps.induct)
  case (1 h acc)
  then show ?case by simp
next
  case (2 h key v rest acc)
  show ?case
  proof (cases v)
    case (Str s)
    with 2 show ?thesis by simp
  next
    case (Num n)
    with 2 show ?thesis by simp
  next
    case (Ref a)
    with "2.prems" have lt: "a < length h"
      and r: "copyProps (h @ [h ! a]) rest (AList.update key (Ref (length h)) acc) = Some (h', q)"
      by (simp_all split: if_splits)
    from "2.IH"(3)[OF Ref lt r] show ?thesis by auto
  qed
qed

lemma createNewPath_append: "createNewPath h path = Some (h', q) \<Longrightarrow> \<exists>new. h' = h @ new"
  unfolding createNewPath_def by (rule copyProps_append)

text \<open>Every array reference of a copy is an address allocated by the copy.\<close>

lemma copyProps_fresh:
  "copyProps h path acc = Some (h', q) \<Longrightarrow> map_of q k = Some (Ref b) \<Longrightarrow>
   map_of acc k = Some (Ref b) \<or> (length h \<le> b \<and> b < length h')"
proof (induction h path acc rule: copyProps.induct)
  case (1 h acc)
  then show ?case by simp
next
  case (2 h key v rest acc)
  show ?case
  proof (cases v)
    case (Str s)
    with "2.prems" have r: "copyProps h rest (AList.update key (Str s) acc) = Some (h', q)" by simp
    from "2.IH"(1)[OF Str r "2.prems"(2)] show ?thesis
      by (auto simp: AList.update_conv' split: if_splits)
  next
    case (Num n)
    with "2.prems" have r: "copyProps h rest acc = Some (h', q)" by simp
    from "2.IH"(2)[OF Num r "2.prems"(2)] show ?thesis .
  next
    case (Ref a)
    with "2.prems" have lt: "a < length h"
      and r: "copyProps (h @ [h ! a]) rest (AList.update key (Ref (length h)) acc) = Some (h', q)"
      by (simp_all split: if_splits)
    from copyProps_append[OF r] have len: "length h < length h'" by auto
    from "2.IH"(3)[OF Ref lt r "2.prems"(2)] len show ?thesis
      by (auto simp: AList.update_conv' split: if_splits)
  qed
qed

lemma newShell_append: "newShell h path = Some (h', q) \<Longrightarrow> \<exists>new. h' = h @ new"
proof -
  assume a: "newShell h path = Some (h', q)"
  then obtain h1 b where c: "createNewPath h path = Some (h1, q)"
    and m: "map_of q ''coords'' = Some (Ref b)" and h': "h' = clear h1 b"
    by (auto simp: newShell_def split: option.splits jsval.splits)
  from createNewPath_append[OF c] obtain new where n: "h1 = h @ new" by auto
  from copyProps_fresh[OF c[unfolded createNewPath_def] m] have "length h \<le> b" by simp
  then have "clear h1 b = h @ (clear new (b - length h))"
    by (simp add: clear_def n list_update_append nth_append)
  with h' show ?thesis by auto
qed

lemma pushCopy_store: "pushCopy s = Some s' \<Longrightarrow> \<exists>new. w_store s' = w_store s @ new"
  by (auto simp: pushCopy_def split: option.splits dest: createNewPath_append)

lemma assignCoords_store: "w_store (assignCoords s cs) = w_store s @ [PointArr cs]"
  by (simp add: assignCoords_def)

lemma extends_writeCoord:
  "pointsAt h a = Some ps \<Longrightarrow> extends h (h[a := PointArr (ps[i := x])])"
  by (rule extends_write) simp_all

lemma pointsAt_append: "pointsAt h a = Some ps \<Longrightarrow> pointsAt (h @ new) a = Some ps"
  by (auto simp: pointsAt_def nth_append split: if_splits)

lemma splitAt_store:
  assumes "splitAt a ps x s = Some s'"
  shows "\<exists>new. w_store s' = (w_store s @ new)[a := PointArr (ps[w_i s := snd x])]"
proof -
  define cs0 where "cs0 = slice (w_last s) (w_i s + 1) ps"
  define cs where "cs = (if px (cs0 ! (length cs0 - 1)) \<noteq> px (fst x)
                        \<or> py (cs0 ! (length cs0 - 1)) \<noteq> py (fst x)
                     then cs0 @ [fst x] else cs0)"
  from assms obtain s2 where
    s2: "(if length cs > 1 then pushCopy (assignCoords s cs) else Some (assignCoords s cs)) = Some s2"
    and s': "w_store s' = (w_store s2)[a := PointArr (ps[w_i s := snd x])]"
    unfolding splitAt_def Let_def cs_def cs0_def
    by (auto simp: writeCoord_def split: if_splits option.splits)
  from s2 obtain new where n: "w_store s2 = w_store s @ new"
    by (cases "length cs > 1") (auto simp: assignCoords_store dest!: pushCopy_store)
  with s' show ?thesis by auto
qed

lemma splitAt_extends:
  assumes "splitAt a ps x s = Some s'" "pointsAt (w_store s) a = Some ps"
  shows "extends (w_store s) (w_store s')"
proof -
  from splitAt_store[OF assms(1)] obtain new where
    s': "w_store s' = (w_store s @ new)[a := PointArr (ps[w_i s := snd x])]" by auto
  have "extends (w_store s @ new) (w_store s')"
    unfolding s' by (rule extends_writeCoord) (rule pointsAt_append[OF assms(2)])
  then show ?thesis
    by (rule extends_trans[rotated]) simp
qed

lemma pointStep_extends:
  assumes "pointStep eX eY r a ps s = Some s'" "pointsAt (w_store s) a = Some ps"
  shows "extends (w_store s) (w_store s')"
  using assms unfolding pointStep_def Let_def
  by (auto simp: writeCoord_def assignCoords_store extends_writeCoord
      split: if_splits option.splits
      intro: splitAt_extends dest!: pushCopy_store)

lemma capsuleStep_extends:
  assumes "capsuleStep e0 e1 r a ps s = Some s'" "pointsAt (w_store s) a = Some ps"
  shows "extends (w_store s) (w_store s')"
  using assms unfolding capsuleStep_def Let_def
  by (auto simp: writeCoord_def assignCoords_store extends_writeCoord
      split: if_splits option.splits
      intro: splitAt_extends dest!: pushCopy_store)

lemma pointLoop_extends:
  "pointLoop eX eY r a s = Some s' \<Longrightarrow> extends (w_store s) (w_store s')"
proof (induction rule: pointLoop.raw_induct[rotated 1, consumes 1])
  case (1 pointLoop' eX eY r a s s')
  from "1.hyps" show ?case
    by (auto split: option.splits if_splits dest: pointStep_extends "1.IH" intro: extends_trans)
qed


lemma capsuleLoop_extends:
  "capsuleLoop e0 e1 r a s = Some s' \<Longrightarrow> extends (w_store s) (w_store s')"
proof (induction rule: capsuleLoop.raw_induct[rotated 1, consumes 1])
  case (1 capsuleLoop' e0 e1 r a s s')
  from "1.hyps" show ?case
    by (auto split: option.splits if_splits dest: capsuleStep_extends "1.IH" intro: extends_trans)
qed

lemma flush_store: "flush copy a s = Some s' \<Longrightarrow> \<exists>new. w_store s' = w_store s @ new"
  unfolding flush_def Let_def
  by (auto simp: assignCoords_store pushNewPath_def split: if_splits option.splits
      dest!: pushCopy_store)

lemma pointErase_extends:
  assumes "pointErase erasePath r (h, nps) path = Some (h', nps')"
  shows "extends h h'"
proof -
  from assms consider "h' = h"
    | h1 newPath s s' where "newShell h path = Some (h1, newPath)"
        "pointLoop (px (erasePath ! 0)) (py (erasePath ! 0)) r (fst (the (coordsOf h path)))
           \<lparr>w_store = h1, w_newPaths = nps, w_newPath = newPath, w_i = 0, w_last = 0\<rparr> = Some s"
        "flush False (fst (the (coordsOf h path))) s = Some s'" "h' = w_store s'"
    unfolding pointErase_def Let_def
    by (auto split: option.splits if_splits)
  then show ?thesis
  proof cases
    case 1
    then show ?thesis by simp
  next
    case 2
    from newShell_append[OF 2(1)] have "extends h h1" by auto
    moreover from pointLoop_extends[OF 2(2)] have "extends h1 (w_store s)" by simp
    moreover from flush_store[OF 2(3)] have "extends (w_store s) h'" using 2(4) by auto
    ultimately show ?thesis by (blast intro: extends_trans)
  qed
qed

lemma capsuleErase_extends:
  assumes "capsuleErase erasePath r e (h, nps) path = Some (h', nps')"
  shows "extends h h'"
proof -
  from assms consider "h' = h"
    | h1 newPath s s' where "newShell h path = Some (h1, newPath)"
        "capsuleLoop (erasePath ! e) (erasePath ! (e + 1)) r (fst (the (coordsOf h path)))
           \<lparr>w_store = h1, w_newPaths = nps, w_newPath = newPath, w_i = 0, w_last = 0\<rparr> = Some s"
        "flush True (fst (the (coordsOf h path))) s = Some s'" "h' = w_store s'"
    unfolding capsuleErase_def Let_def
    by (auto split: option.splits if_splits)
  then show ?thesis
  proof cases
    case 1
    then show ?thesis by simp
  next
    case 2
    from newShell_append[OF 2(1)] have "extends h h1" by auto
    moreover from capsuleLoop_extends[OF 2(2)] have "extends h1 (w_store s)" by simp
    moreover from flush_store[OF 2(3)] have "extends (w_store s) h'" using 2(4) by auto
    ultimately show ?thesis by (blast intro: extends_trans)
  qed
qed

lemma forPaths_extends:
  assumes "\<And>h nps path h' nps'. f (h, nps) path = Some (h', nps') \<Longrightarrow> extends h h'"
  shows "forPaths f (h, nps) paths = Some (h', nps') \<Longrightarrow> extends h h'"
proof (induction paths arbitrary: h nps)
  case Nil
  then show ?case by simp
next
  case (Cons path paths)
  from Cons.prems obtain h1 nps1 where f: "f (h, nps) path = Some (h1, nps1)"
    and r: "forPaths f (h1, nps1) paths = Some (h', nps')"
    by (auto split: option.splits)
  from assms[OF f] Cons.IH[OF r] show ?case by (rule extends_trans)
qed

lemma forSegments_extends:
  "forSegments erasePath r (h, paths) es = Some (h', res) \<Longrightarrow> extends h h'"
proof (induction es arbitrary: h paths)
  case Nil
  then show ?case by simp
next
  case (Cons e es)
  from Cons.prems obtain h1 nps1 where
    f: "forPaths (capsuleErase erasePath r e) (h, []) paths = Some (h1, nps1)"
    and r: "forSegments erasePath r (h1, nps1) es = Some (h', res)"
    by (auto split: option.splits)
  from forPaths_extends[of "capsuleErase erasePath r e", OF capsuleErase_extends f] Cons.IH[OF r]
  show ?case by (rule extends_trans)
qed

lemma pointPass_extends:
  "forPaths (pointErase ep r) (h, nps) paths = Some (h', nps') \<Longrightarrow> extends h h'"
  by (erule forPaths_extends[rotated]) (rule pointErase_extends)

lemma erase_extends:
  "erase h paths erasePath r = Some (h', res) \<Longrightarrow> extends h h'"
  unfolding erase_def Let_def
  by (auto split: option.splits if_splits dest: forSegments_extends pointPass_extends)

section \<open>Every emitted path has a coordinate\<close>

lemma stepShape_move: "stepShape a ps s (s\<lparr>w_i := i, w_last := l\<rparr>)"
  unfolding stepShape_def by blast

lemma stepShape_move_i: "stepShape a ps s (s\<lparr>w_i := i\<rparr>)"
  using stepShape_move[where i=i and l="w_last s" and s=s and a=a and ps=ps] by simp

lemma stepShape_write: "stepShape a ps s ((writeCoord a ps (w_i s) x s)\<lparr>w_last := l\<rparr>)"
  unfolding stepShape_def by blast

lemma stepShape_emit:
  "cs \<noteq> [] \<Longrightarrow> pushCopy (assignCoords s cs) = Some s1 \<Longrightarrow>
   stepShape a ps s (s1\<lparr>w_i := i, w_last := l\<rparr>)"
  unfolding stepShape_def by blast

lemma stepShape_split: "splitAt a ps x s = Some s' \<Longrightarrow> stepShape a ps s s'"
  unfolding stepShape_def by blast

lemmas stepShape_intros =
  stepShape_move stepShape_move_i stepShape_write stepShape_emit stepShape_split

lemma pointStep_shape: "pointStep eX eY r a ps s = Some s' \<Longrightarrow> stepShape a ps s s'"
  unfolding pointStep_def Let_def
  by (auto split: if_splits option.splits intro: stepShape_intros)

lemma capsuleStep_shape: "capsuleStep e0 e1 r a ps s = Some s' \<Longrightarrow> stepShape a ps s s'"
  unfolding capsuleStep_def Let_def
  by (auto split: if_splits option.splits intro: stepShape_intros)


lemma copyProps_other:
  "copyProps h path acc = Some (h', q) \<Longrightarrow> k \<notin> fst ` set path \<Longrightarrow> map_of q k = map_of acc k"
proof (induction h path acc rule: copyProps.induct)
  case (1 h acc)
  then show ?case by simp
next
  case (2 h key v rest acc)
  from "2.prems"(2) have k: "k \<noteq> key" "k \<notin> fst ` set rest" by auto
  show ?case
  proof (cases v)
    case (Str x)
    with "2.prems" have "copyProps h rest (AList.update key (Str x) acc) = Some (h', q)" by simp
    from "2.IH"(1)[OF Str this k(2)] k(1) show ?thesis by (simp add: AList.update_conv')
  next
    case (Num n)
    with "2.prems" have "copyProps h rest acc = Some (h', q)" by simp
    from "2.IH"(2)[OF Num this k(2)] show ?thesis .
  next
    case (Ref a)
    with "2.prems" have lt: "a < length h"
      and r: "copyProps (h @ [h ! a]) rest (AList.update key (Ref (length h)) acc) = Some (h', q)"
      by (simp_all split: if_splits)
    from "2.IH"(3)[OF Ref lt r k(2)] k(1) show ?thesis by (simp add: AList.update_conv')
  qed
qed

lemma copyProps_distinct:
  "copyProps h path acc = Some (h', q) \<Longrightarrow> distinct (map fst acc) \<Longrightarrow> distinct (map fst q)"
proof (induction h path acc rule: copyProps.induct)
  case (1 h acc)
  then show ?case by simp
next
  case (2 h key v rest acc)
  show ?case
  proof (cases v)
    case (Str x)
    with "2.prems" have "copyProps h rest (AList.update key (Str x) acc) = Some (h', q)" by simp
    from "2.IH"(1)[OF Str this] "2.prems"(2) show ?thesis by (simp add: AList.distinct_update)
  next
    case (Num n)
    with "2.prems" have "copyProps h rest acc = Some (h', q)" by simp
    from "2.IH"(2)[OF Num this "2.prems"(2)] show ?thesis .
  next
    case (Ref a)
    with "2.prems" have lt: "a < length h"
      and r: "copyProps (h @ [h ! a]) rest (AList.update key (Ref (length h)) acc) = Some (h', q)"
      by (simp_all split: if_splits)
    from "2.IH"(3)[OF Ref lt r] "2.prems"(2) show ?thesis by (simp add: AList.distinct_update)
  qed
qed

text \<open>An array property of the source is, in the copy, a new array with the same elements.\<close>

lemma copyProps_ref:
  "copyProps h path acc = Some (h', q) \<Longrightarrow> distinct (map fst path) \<Longrightarrow>
   (k, Ref a) \<in> set path \<Longrightarrow> a < length h \<Longrightarrow>
   \<exists>b. map_of q k = Some (Ref b) \<and> length h \<le> b \<and> b < length h' \<and> h' ! b = h ! a"
proof (induction h path acc rule: copyProps.induct)
  case (1 h acc)
  then show ?case by simp
next
  case (2 h key v rest acc)
  from "2.prems"(2) have d: "key \<notin> fst ` set rest" "distinct (map fst rest)" by auto
  show ?case
  proof (cases "(k, Ref a) = (key, v)")
    case True
    then have kv: "k = key" "v = Ref a" by auto
    with "2.prems" have
      r: "copyProps (h @ [h ! a]) rest (AList.update key (Ref (length h)) acc) = Some (h', q)"
      by (simp split: if_splits)
    from copyProps_other[OF r d(1)] have m: "map_of q k = Some (Ref (length h))"
      by (simp add: kv AList.update_conv')
    from copyProps_append[OF r] obtain new where n: "h' = (h @ [h ! a]) @ new" by auto
    then have "h' ! length h = h ! a" "length h < length h'" by (simp_all add: nth_append)
    with m show ?thesis by auto
  next
    case False
    with "2.prems"(3) have mem: "(k, Ref a) \<in> set rest" by auto
    show ?thesis
    proof (cases v)
      case (Str x)
      with "2.prems" have "copyProps h rest (AList.update key (Str x) acc) = Some (h', q)" by simp
      from "2.IH"(1)[OF Str this d(2) mem "2.prems"(4)] show ?thesis .
    next
      case (Num n)
      with "2.prems" have "copyProps h rest acc = Some (h', q)" by simp
      from "2.IH"(2)[OF Num this d(2) mem "2.prems"(4)] show ?thesis .
    next
      case (Ref a')
      with "2.prems" have lt: "a' < length h"
        and r: "copyProps (h @ [h ! a']) rest (AList.update key (Ref (length h)) acc) = Some (h', q)"
        by (simp_all split: if_splits)
      from "2.prems"(4) have "a < length (h @ [h ! a'])" by simp
      from "2.IH"(3)[OF Ref lt r d(2) mem this] "2.prems"(4) show ?thesis
        by (auto simp: nth_append)
    qed
  qed
qed


lemma createNewPath_distinct: "createNewPath h path = Some (h', q) \<Longrightarrow> distinct (map fst q)"
  unfolding createNewPath_def by (erule copyProps_distinct) simp

lemma newShell_distinct: "newShell h path = Some (h', q) \<Longrightarrow> distinct (map fst q)"
  by (auto simp: newShell_def split: option.splits jsval.splits dest: createNewPath_distinct)

lemma map_of_in_set: "distinct (map fst al) \<Longrightarrow> map_of al k = Some v \<Longrightarrow> (k, v) \<in> set al"
  by (rule map_of_SomeD)

lemma coordsOf_Some_iff:
  "coordsOf h q = Some (a, ps) \<longleftrightarrow>
   map_of q ''coords'' = Some (Ref a) \<and> a < length h \<and> h ! a = PointArr ps"
  unfolding coordsOf_def
  by (auto split: option.splits jsval.splits cell.splits)

lemma okPath_iff:
  "okPath h q \<longleftrightarrow> (\<exists>a ps. coordsOf h q = Some (a, ps) \<and> 1 \<le> length ps)"
  unfolding okPath_def by (simp split: option.splits) 

lemma pushCopy_ok:
  assumes "pushCopy (assignCoords s cs) = Some s1" "cs \<noteq> []" "distinct (map fst (w_newPath s))"
  shows "\<exists>q. w_newPaths s1 = w_newPaths s @ [q] \<and> okPath (w_store s1) q
             \<and> w_newPath s1 = w_newPath (assignCoords s cs)"
proof -
  let ?s = "assignCoords s cs"
  let ?n = "length (w_store s)"
  from assms(1) obtain h q where c: "createNewPath (w_store ?s) (w_newPath ?s) = Some (h, q)"
    and s1: "s1 = ?s\<lparr>w_store := h, w_newPaths := w_newPaths ?s @ [q]\<rparr>"
    by (auto simp: pushCopy_def split: option.splits)
  have d: "distinct (map fst (w_newPath ?s))"
    using assms(3) by (simp add: assignCoords_def AList.distinct_update)
  have "map_of (w_newPath ?s) ''coords'' = Some (Ref ?n)"
    by (simp add: assignCoords_def AList.update_conv')
  then have mem: "(''coords'', Ref ?n) \<in> set (w_newPath ?s)" by (rule map_of_SomeD)
  have lt: "?n < length (w_store ?s)" by (simp add: assignCoords_def)
  from copyProps_ref[OF c[unfolded createNewPath_def] d mem lt]
  obtain b where b: "map_of q ''coords'' = Some (Ref b)" "b < length h"
    "h ! b = w_store ?s ! ?n" by auto
  have "w_store ?s ! ?n = PointArr cs" by (simp add: assignCoords_def)
  with b assms(2) have "okPath h q"
    unfolding okPath_iff coordsOf_Some_iff by (cases cs) auto
  with s1 show ?thesis by (simp add: assignCoords_def)
qed

lemma okPath_extends:
  assumes "okPath h q" "extends h h'"
  shows "okPath h' q"
proof -
  from assms(1) obtain a ps where m: "map_of q ''coords'' = Some (Ref a)" and lt: "a < length h"
    and c: "h ! a = PointArr ps" and len: "1 \<le> length ps"
    unfolding okPath_iff coordsOf_Some_iff by blast
  from assms(2) lt have lt': "a < length h'" and sh: "sameShape (h ! a) (h' ! a)"
    unfolding extends_def by auto
  from sh c obtain ps' where c': "h' ! a = PointArr ps'" and "length ps' = length ps"
    unfolding sameShape_def by (auto split: cell.splits)
  with len m lt' show ?thesis unfolding okPath_iff coordsOf_Some_iff by auto
qed

lemma allOk_store:
  "allOk s \<Longrightarrow> extends (w_store s) h \<Longrightarrow> allOk (s\<lparr>w_store := h\<rparr>)"
  unfolding allOk_def by (auto intro: okPath_extends)


lemma splitAt_decomp:
  assumes "splitAt a ps x s = Some s'"
  shows "\<exists>cs s2 i'. cs \<noteq> []
           \<and> (if length cs > 1 then pushCopy (assignCoords s cs) else Some (assignCoords s cs)) = Some s2
           \<and> s' = (writeCoord a ps (w_i s) (snd x) s2)\<lparr>w_i := i', w_last := i'\<rparr>"
proof -
  define cs0 where "cs0 = slice (w_last s) (w_i s + 1) ps"
  define cs where "cs = (if px (cs0 ! (length cs0 - 1)) \<noteq> px (fst x)
                        \<or> py (cs0 ! (length cs0 - 1)) \<noteq> py (fst x)
                     then cs0 @ [fst x] else cs0)"
  from assms have ne: "cs0 \<noteq> []"
    unfolding splitAt_def Let_def cs0_def by (auto split: if_splits)
  then have "cs \<noteq> []" unfolding cs_def by simp
  moreover from assms ne obtain s2 i' where
    "(if length cs > 1 then pushCopy (assignCoords s cs) else Some (assignCoords s cs)) = Some s2"
    "s' = (writeCoord a ps (w_i s) (snd x) s2)\<lparr>w_i := i', w_last := i'\<rparr>"
    unfolding splitAt_def Let_def cs_def cs0_def
    by (simp split: option.splits) metis
  ultimately show ?thesis by blast
qed

lemma allOk_assignCoords:
  assumes "allOk s"
  shows "allOk (assignCoords s cs)"
proof -
  have "extends (w_store s) (w_store s @ [PointArr cs])" by simp
  with assms show ?thesis
    unfolding allOk_def assignCoords_def
    by (auto simp: AList.distinct_update intro: okPath_extends)
qed

lemma allOk_pushCopy:
  assumes "pushCopy (assignCoords s cs) = Some s1" "cs \<noteq> []" "allOk s"
  shows "allOk s1"
proof -
  from assms(3) have d: "distinct (map fst (w_newPath s))" unfolding allOk_def by simp
  from pushCopy_ok[OF assms(1,2) d] obtain q where
    q: "w_newPaths s1 = w_newPaths s @ [q]" "okPath (w_store s1) q"
       "w_newPath s1 = w_newPath (assignCoords s cs)" by auto
  from pushCopy_store[OF assms(1)] have "extends (w_store s) (w_store s1)"
    by (auto simp: assignCoords_store)
  with assms(3) q show ?thesis
    unfolding allOk_def
    by (auto simp: assignCoords_def AList.distinct_update intro: okPath_extends)
qed

lemma allOk_move [simp]: "allOk (s\<lparr>w_i := i, w_last := l\<rparr>) = allOk s"
  "allOk (s\<lparr>w_last := l\<rparr>) = allOk s" "allOk (s\<lparr>w_i := i\<rparr>) = allOk s"
  by (simp_all add: allOk_def)

lemma allOk_writeCoord:
  assumes "allOk s" "pointsAt (w_store s) a = Some ps"
  shows "allOk (writeCoord a ps i x s)"
  unfolding writeCoord_def using assms
  by (auto intro!: allOk_store extends_writeCoord)

lemma stepShape_allOk:
  assumes "stepShape a ps s s'" "pointsAt (w_store s) a = Some ps" "allOk s"
  shows "allOk s'"
proof -
  from assms(1) consider
      (mv) i l where "s' = s\<lparr>w_i := i, w_last := l\<rparr>"
    | (wr) x l where "s' = (writeCoord a ps (w_i s) x s)\<lparr>w_last := l\<rparr>"
    | (em) cs s1 i l where "cs \<noteq> []" "pushCopy (assignCoords s cs) = Some s1"
        "s' = s1\<lparr>w_i := i, w_last := l\<rparr>"
    | (sp) x where "splitAt a ps x s = Some s'"
    unfolding stepShape_def by blast
  then show ?thesis
  proof cases
    case mv
    with assms(3) show ?thesis by simp
  next
    case wr
    with allOk_writeCoord[OF assms(3,2)] show ?thesis by simp
  next
    case em
    with allOk_pushCopy[OF em(2,1) assms(3)] show ?thesis by simp
  next
    case sp
    from splitAt_decomp[OF sp] obtain cs s2 i' where cs: "cs \<noteq> []"
      and s2: "(if length cs > 1 then pushCopy (assignCoords s cs) else Some (assignCoords s cs)) = Some s2"
      and s': "s' = (writeCoord a ps (w_i s) (snd x) s2)\<lparr>w_i := i', w_last := i'\<rparr>"
      by blast
    have ok2: "allOk s2"
      using s2 allOk_pushCopy[OF _ cs assms(3)] allOk_assignCoords[OF assms(3)]
      by (auto split: if_splits)
    have "\<exists>new. w_store s2 = w_store s @ new"
      using s2 by (auto simp: assignCoords_store split: if_splits dest!: pushCopy_store)
    then have "pointsAt (w_store s2) a = Some ps"
      using assms(2) by (auto intro: pointsAt_append)
    from allOk_writeCoord[OF ok2 this] s' show ?thesis by simp
  qed
qed

lemma pointLoop_allOk:
  "pointLoop eX eY r a s = Some s' \<Longrightarrow> allOk s \<Longrightarrow> allOk s'"
proof (induction rule: pointLoop.raw_induct[rotated 1, consumes 1])
  case (1 pointLoop' eX eY r a s s')
  from "1.hyps" "1.prems" show ?case
    by (auto split: option.splits if_splits
        dest!: pointStep_shape dest: stepShape_allOk intro: "1.IH")
qed

lemma capsuleLoop_allOk:
  "capsuleLoop e0 e1 r a s = Some s' \<Longrightarrow> allOk s \<Longrightarrow> allOk s'"
proof (induction rule: capsuleLoop.raw_induct[rotated 1, consumes 1])
  case (1 capsuleLoop' e0 e1 r a s s')
  from "1.hyps" "1.prems" show ?case
    by (auto split: option.splits if_splits
        dest!: capsuleStep_shape dest: stepShape_allOk intro: "1.IH")
qed

lemma flush_allOk:
  assumes "flush copy a s = Some s'" "allOk s"
  shows "\<forall>q \<in> set (w_newPaths s'). okPath (w_store s') q"
proof (cases "w_last s \<noteq> w_i s")
  case False
  with assms show ?thesis by (simp add: flush_def allOk_def)
next
  case True
  with assms(1) obtain ps where ps: "pointsAt (w_store s) a = Some ps"
    by (auto simp: flush_def split: option.splits)
  define cs where "cs = slice (w_last s) (length ps) ps"
  let ?s1 = "assignCoords s cs"
  have ok1: "allOk ?s1" using assms(2) by (rule allOk_assignCoords)
  show ?thesis
  proof (cases "length cs > 0")
    case False
    with assms(1) True ps have "s' = ?s1" by (simp add: flush_def cs_def Let_def)
    with ok1 show ?thesis by (simp add: allOk_def)
  next
    case nonempty: True
    show ?thesis
    proof (cases copy)
      case True
      with assms(1) \<open>w_last s \<noteq> w_i s\<close> ps nonempty have "pushCopy ?s1 = Some s'"
        by (simp add: flush_def cs_def Let_def)
      from allOk_pushCopy[OF this _ assms(2)] nonempty show ?thesis by (auto simp: allOk_def)
    next
      case False
      with assms(1) \<open>w_last s \<noteq> w_i s\<close> ps nonempty have s': "s' = pushNewPath ?s1"
        by (simp add: flush_def cs_def Let_def)
      have "coordsOf (w_store ?s1) (w_newPath ?s1) = Some (length (w_store s), cs)"
        unfolding coordsOf_Some_iff by (simp add: assignCoords_def AList.update_conv')
      with nonempty have "okPath (w_store ?s1) (w_newPath ?s1)"
        unfolding okPath_iff by (cases cs) auto
      with ok1 s' show ?thesis by (auto simp: allOk_def pushNewPath_def)
    qed
  qed
qed

lemma pointErase_ok:
  assumes "pointErase erasePath r hn path = Some hn'" "allOkPaths hn"
  shows "allOkPaths hn'"
proof -
  obtain h nps where hn: "hn = (h, nps)" by (cases hn)
  from assms(1) obtain a ps where co: "coordsOf h path = Some (a, ps)"
    unfolding pointErase_def Let_def hn by (auto split: option.splits)
  show ?thesis
  proof (cases "length ps = 1
                \<and> \<not> withinCircle (px (ps ! 0)) (py (ps ! 0)) (px (erasePath ! 0)) (py (erasePath ! 0)) r \<noteq> 0")
    case True
    with assms(1) co have "hn' = (h, nps @ [path])"
      unfolding pointErase_def Let_def hn by auto
    moreover from True co have "okPath h path" unfolding okPath_iff by auto
    ultimately show ?thesis using assms(2) by (auto simp: allOkPaths_def hn)
  next
    case False
    with assms(1) co obtain h1 newPath s s' where sh: "newShell h path = Some (h1, newPath)"
      and lo: "pointLoop (px (erasePath ! 0)) (py (erasePath ! 0)) r a
           \<lparr>w_store = h1, w_newPaths = nps, w_newPath = newPath, w_i = 0, w_last = 0\<rparr> = Some s"
      and fl: "flush False a s = Some s'" and hn': "hn' = (w_store s', w_newPaths s')"
      unfolding pointErase_def Let_def hn
      by (auto split: option.splits if_splits)
    from newShell_append[OF sh] have "extends h h1" by auto
    with assms(2) newShell_distinct[OF sh]
    have "allOk \<lparr>w_store = h1, w_newPaths = nps, w_newPath = newPath, w_i = 0, w_last = 0\<rparr>"
      by (auto simp: allOk_def allOkPaths_def hn intro: okPath_extends)
    from flush_allOk[OF fl pointLoop_allOk[OF lo this]] hn' show ?thesis
      by (simp add: allOkPaths_def)
  qed
qed

lemma capsuleErase_ok:
  assumes "capsuleErase erasePath r e hn path = Some hn'" "allOkPaths hn"
  shows "allOkPaths hn'"
proof -
  obtain h nps where hn: "hn = (h, nps)" by (cases hn)
  let ?e0 = "erasePath ! e" and ?e1 = "erasePath ! (e + 1)"
  from assms(1) obtain a ps where co: "coordsOf h path = Some (a, ps)"
    unfolding capsuleErase_def Let_def hn by (auto split: option.splits)
  show ?thesis
  proof (cases "length ps = 1
                \<and> 1 \<notin> set (withinCapsule (px (ps ! 0)) (py (ps ! 0))
                                (px ?e0) (py ?e0) (px ?e1) (py ?e1) r)")
    case True
    with assms(1) co have "hn' = (h, nps @ [path])"
      unfolding capsuleErase_def Let_def hn by auto
    moreover from True co have "okPath h path" unfolding okPath_iff by auto
    ultimately show ?thesis using assms(2) by (auto simp: allOkPaths_def hn)
  next
    case False
    with assms(1) co obtain h1 newPath s s' where sh: "newShell h path = Some (h1, newPath)"
      and lo: "capsuleLoop ?e0 ?e1 r a
           \<lparr>w_store = h1, w_newPaths = nps, w_newPath = newPath, w_i = 0, w_last = 0\<rparr> = Some s"
      and fl: "flush True a s = Some s'" and hn': "hn' = (w_store s', w_newPaths s')"
      unfolding capsuleErase_def Let_def hn
      by (auto split: option.splits if_splits)
    from newShell_append[OF sh] have "extends h h1" by auto
    with assms(2) newShell_distinct[OF sh]
    have "allOk \<lparr>w_store = h1, w_newPaths = nps, w_newPath = newPath, w_i = 0, w_last = 0\<rparr>"
      by (auto simp: allOk_def allOkPaths_def hn intro: okPath_extends)
    from flush_allOk[OF fl capsuleLoop_allOk[OF lo this]] hn' show ?thesis
      by (simp add: allOkPaths_def)
  qed
qed

lemma forPaths_inv:
  assumes "\<And>hn path hn'. f hn path = Some hn' \<Longrightarrow> P hn \<Longrightarrow> P hn'"
  shows "forPaths f hn paths = Some hn' \<Longrightarrow> P hn \<Longrightarrow> P hn'"
proof (induction paths arbitrary: hn)
  case Nil
  then show ?case by simp
next
  case (Cons path paths)
  from Cons.prems(1) obtain hn1 where f: "f hn path = Some hn1"
    and r: "forPaths f hn1 paths = Some hn'"
    by (auto split: option.splits)
  from Cons.IH[OF r assms[OF f Cons.prems(2)]] show ?case .
qed

lemma forSegments_ok:
  "forSegments erasePath r hp es = Some hp' \<Longrightarrow> es \<noteq> [] \<Longrightarrow> allOkPaths hp'"
proof (induction es arbitrary: hp)
  case Nil
  then show ?case by simp
next
  case (Cons e es)
  from Cons.prems(1) obtain hn where
    f: "forPaths (capsuleErase erasePath r e) (fst hp, []) (snd hp) = Some hn"
    and r: "forSegments erasePath r hn es = Some hp'"
    by (auto split: option.splits)
  have "allOkPaths (fst hp, [])" by (simp add: allOkPaths_def)
  with f have ok: "allOkPaths hn"
    by (rule forPaths_inv[of "capsuleErase erasePath r e" allOkPaths, rotated 1])
       (rule capsuleErase_ok)
  show ?case
  proof (cases es)
    case Nil
    with r ok show ?thesis by simp
  next
    case (Cons e' es')
    with Cons.IH[OF r] show ?thesis by simp
  qed
qed

lemma erase_allOk:
  assumes "erase h paths erasePath eraseRadius = Some (h', res)"
  shows "allOkPaths (h', res)"
proof -
  define r where "r = (if eraseRadius = 0 then 20 else eraseRadius)"
  from assms obtain c where c: "cleanPath erasePath = Some c"
    unfolding erase_def Let_def by (auto split: option.splits)
  then have "erasePath \<noteq> []" by (auto simp: cleanPath_def)
  from cleanPath_cases[OF this] c have ne: "c \<noteq> []" by auto
  show ?thesis
  proof (cases "length c = 1")
    case True
    with assms c have f: "forPaths (pointErase c r) (h, []) paths = Some (h', res)"
      unfolding erase_def r_def by (simp add: Let_def)
    have "allOkPaths (h, [])" by (simp add: allOkPaths_def)
    with f show ?thesis
      by (rule forPaths_inv[of "pointErase c r" allOkPaths, rotated 1]) (rule pointErase_ok)
  next
    case False
    with assms c have f: "forSegments c r (h, paths) [0 ..< length c - 1] = Some (h', res)"
      unfolding erase_def r_def by (simp add: Let_def)
    from False ne have "2 \<le> length c" by (cases c; cases "tl c") auto
    then have "[0 ..< length c - 1] \<noteq> []" by simp
    with f show ?thesis by (rule forSegments_ok)
  qed
qed

section \<open>The worked example, evaluated\<close>

lemma sqrt_25: "sqrt 25 = 5" using real_sqrt_abs[of 5] by simp
lemma sqrt_16: "sqrt 16 = 4" using real_sqrt_abs[of 4] by simp
lemma sqrt_100: "sqrt 100 = 10" using real_sqrt_abs[of 10] by simp

lemma exA_cross1: "getCircleIntersections 0 0 10 0 5 0 1 = Some (Point 4 0, Point 6 0)"
  by (simp add: getCircleIntersections_def getClosestPointOnSegment_def getLength_def EPS_def
      Let_def sqrt_100)

lemma exA_cross2: "getCircleIntersections 6 0 10 0 5 0 1 = None"
  by (simp add: getCircleIntersections_def getClosestPointOnSegment_def getLength_def EPS_def
      Let_def sqrt_16)

lemma exA_within:
  "withinCircle 0 0 5 0 1 = 0" "withinCircle 10 0 5 0 1 = 0" "withinCircle 6 0 5 0 1 = 0"
  by (simp_all add: withinCircle_def getDistance_def sqrt_25)

lemma exA_shell: "newShell exA_store exA_path = Some (w_store exA_s0, w_newPath exA_s0)"
  by (simp add: newShell_def createNewPath_def exA_store_def exA_path_def clear_def exA_s0_def)

lemma exA_step1: "pointStep 5 0 1 0 [Point 0 0, Point 10 0] exA_s0 = Some exA_s1"
  by (simp add: exA_s0_def exA_s1_def exA_q1_def pointStep_def exA_within exA_cross1 splitAt_def
      slice_def assignCoords_def pushCopy_def createNewPath_def writeCoord_def Let_def)

lemma exA_step2: "pointStep 5 0 1 0 [Point 6 0, Point 10 0] exA_s1 = Some exA_s2"
  by (simp add: exA_s1_def exA_s2_def pointStep_def exA_within exA_cross2 Let_def)

lemma exA_loop: "pointLoop 5 0 1 0 exA_s0 = Some exA_s2"
proof -
  have a: "pointsAt (w_store exA_s0) 0 = Some [Point 0 0, Point 10 0]" "w_i exA_s0 = 0"
    by (simp_all add: exA_s0_def pointsAt_def)
  have b: "pointsAt (w_store exA_s1) 0 = Some [Point 6 0, Point 10 0]" "w_i exA_s1 = 0"
    by (simp_all add: exA_s1_def pointsAt_def)
  have c: "pointsAt (w_store exA_s2) 0 = Some [Point 6 0, Point 10 0]" "w_i exA_s2 = 1"
    by (simp_all add: exA_s1_def exA_s2_def pointsAt_def)
  have "pointLoop 5 0 1 0 exA_s2 = Some exA_s2"
    by (subst pointLoop.simps) (simp add: c)
  then have "pointLoop 5 0 1 0 exA_s1 = Some exA_s2"
    by (subst pointLoop.simps) (simp add: b exA_step2)
  then show ?thesis
    by (subst pointLoop.simps) (simp add: a exA_step1)
qed

lemma exA_flush:
  "flush False 0 exA_s2 =
     Some \<lparr>w_store = exA_final, w_newPaths = [exA_q1, exA_q2], w_newPath = exA_q2,
           w_i = 1, w_last = 0\<rparr>"
  by (simp add: flush_def exA_s2_def exA_s1_def exA_final_def exA_q2_def pointsAt_def slice_def
      assignCoords_def pushNewPath_def Let_def)

lemma exA_pointErase:
  "pointErase [Point 5 0] 1 (exA_store, []) exA_path = Some (exA_final, [exA_q1, exA_q2])"
proof -
  have co: "coordsOf exA_store exA_path = Some (0, [Point 0 0, Point 10 0])"
    by (simp add: coordsOf_def exA_store_def exA_path_def)
  have s0: "\<lparr>w_store = w_store exA_s0, w_newPaths = [], w_newPath = w_newPath exA_s0,
             w_i = 0, w_last = 0\<rparr> = exA_s0"
    by (simp add: exA_s0_def)
  show ?thesis
    by (simp add: pointErase_def co exA_shell s0 exA_loop exA_flush Let_def)
qed

lemma exA_erase:
  "erase exA_store [exA_path] [Point 5 0] 1 = Some (exA_final, [exA_q1, exA_q2])"
  by (simp add: erase_def cleanPath_def exA_pointErase)

lemma exA_coords:
  "coordsOf exA_store exA_path = Some (0, [Point 0 0, Point 10 0])"
  "coordsOf exA_final exA_path = Some (0, [Point 6 0, Point 10 0])"
  "coordsOf exA_final exA_q1 = Some (7, [Point 0 0, Point 4 0])"
  "coordsOf exA_final exA_q2 = Some (8, [Point 6 0, Point 10 0])"
  by (simp_all add: coordsOf_def exA_store_def exA_final_def exA_path_def exA_q1_def exA_q2_def)

section \<open>Claims about the store\<close>

text \<open>
  Claim C1 says that \<^verbatim>\<open>erase\<close> never mutates the caller's input: after the call every
  input path has the same coords sequence and the same attribute values, all splicing
  being done on working copies. The loops of both passes assign
  \<^verbatim>\<open>path.coords[i] = x\<close>, where \<^verbatim>\<open>path\<close> is \<^verbatim>\<open>paths[p]\<close>, the caller's object: in the
  worked example the caller's array [(0,0), (10,0)] is [(6,0), (10,0)] after the call.
\<close>

theorem erase_overwrites_caller_coords:
  "erase exA_store [exA_path] [Point 5 0] 1 = Some (exA_final, [exA_q1, exA_q2])
   \<and> coordsOf exA_store exA_path = Some (0, [Point 0 0, Point 10 0])
   \<and> coordsOf exA_final exA_path = Some (0, [Point 6 0, Point 10 0])"
  by (simp add: exA_erase exA_coords)

text \<open>
  Claim C1, amended: after \<^verbatim>\<open>erase\<close> returns, every array that existed before the call
  is still at its address; an array of attribute values has exactly the elements it had,
  and an array of points has the number of points it had. So every input path keeps its
  attribute values and the length of its coords sequence, while points of its coords
  sequence may have been overwritten by computed crossing points.
\<close>

theorem erase_keeps_attributes_and_lengths:
  assumes "erase h paths erasePath eraseRadius = Some (h', res)" and "a < length h"
  shows "a < length h'
         \<and> (\<forall>vs. h ! a = ValArr vs \<longrightarrow> h' ! a = ValArr vs)
         \<and> (\<forall>ps. h ! a = PointArr ps \<longrightarrow> (\<exists>ps'. h' ! a = PointArr ps' \<and> length ps' = length ps))"
proof -
  from erase_extends[OF assms(1)] assms(2)
  have "a < length h'" and "sameShape (h ! a) (h' ! a)"
    unfolding extends_def by auto
  then show ?thesis
    unfolding sameShape_def by (auto split: cell.splits)
qed

theorem erase_keeps_attributes_and_lengths_witness:
  "exA_final ! 1 = ValArr [Ref 2]
   \<and> (\<exists>ps'. exA_final ! 0 = PointArr ps' \<and> length ps' = 2)"
proof -
  have l: "(1::nat) < length exA_store" "(0::nat) < length exA_store"
    by (simp_all add: exA_store_def)
  have c: "exA_store ! 1 = ValArr [Ref 2]" "exA_store ! 0 = PointArr [Point 0 0, Point 10 0]"
    by (simp_all add: exA_store_def)
  from erase_keeps_attributes_and_lengths[OF exA_erase l(1)]
       erase_keeps_attributes_and_lengths[OF exA_erase l(2)] c
  show ?thesis by auto
qed

text \<open>
  Claim C6: every path in the list returned by \<^verbatim>\<open>erase\<close> has a coords sequence of
  length at least 1, for every input on which \<^verbatim>\<open>erase\<close> returns.
\<close>

theorem erase_coords_nonempty:
  assumes "erase h paths erasePath eraseRadius = Some (h', res)" and "q \<in> set res"
  shows "\<exists>a ps. coordsOf h' q = Some (a, ps) \<and> 1 \<le> length ps"
  using erase_allOk[OF assms(1)] assms(2)
  unfolding allOkPaths_def okPath_iff by auto

theorem erase_coords_nonempty_witness:
  "\<exists>a ps. coordsOf exA_final exA_q1 = Some (a, ps) \<and> 1 \<le> length ps"
proof -
  have "exA_q1 \<in> set [exA_q1, exA_q2]" by simp
  from erase_coords_nonempty[OF exA_erase this] show ?thesis .
qed

section \<open>Attributes of emitted paths\<close>

lemma grows_refl [simp]: "grows n h h"
  by (simp add: grows_def)

lemma grows_trans: "grows n h1 h2 \<Longrightarrow> grows n h2 h3 \<Longrightarrow> grows n h1 h3"
  unfolding grows_def by (metis (no_types, lifting) le_trans less_le_trans)

lemma grows_append [simp]: "grows n h (h @ new)"
  by (simp add: grows_def nth_append)
















lemma copyInv_move [simp]:
  "copyInv h h1 src nps (s\<lparr>w_i := i, w_last := l\<rparr>) = copyInv h h1 src nps s"
  "copyInv h h1 src nps (s\<lparr>w_last := l\<rparr>) = copyInv h h1 src nps s"
  "copyInv h h1 src nps (s\<lparr>w_i := i\<rparr>) = copyInv h h1 src nps s"
  by (simp_all add: copyInv_def)























section \<open>The capsule pass on a path that ends inside the capsule\<close>

lemma sqrt_144: "sqrt 144 = 12" using real_sqrt_abs[of 12] by simp
lemma sqrt_9: "sqrt 9 = 3" using real_sqrt_abs[of 3] by simp
lemma sqrt_65_ge: "5 \<le> sqrt 65" using real_sqrt_le_mono[of 25 65] by (simp add: sqrt_25)
lemma sqrt_97_ge: "5 \<le> sqrt 97" using real_sqrt_le_mono[of 25 97] by (simp add: sqrt_25)
lemma sqrt_377_ge: "5 \<le> sqrt 377" using real_sqrt_le_mono[of 25 377] by (simp add: sqrt_25)

lemma exB_inside: "withinCapsule 3 4 0 0 10 0 5 = [0, 0, 1]"
  using sqrt_65_ge
  by (simp add: withinCapsule_def withinCircle_def withinBox_def getDistance_def Let_def
      sqrt_25 sqrt_100)

lemma exB_outside: "withinCapsule (- 9) 4 0 0 10 0 5 = [0, 0, 0]"
  using sqrt_97_ge sqrt_377_ge
  by (simp add: withinCapsule_def withinCircle_def withinBox_def getDistance_def Let_def
      sqrt_100)

lemma exB_box:
  "getParallelSegments 0 0 10 0 5 = [Point 0 5, Point 0 (- 5), Point 10 (- 5), Point 10 5]"
  by (simp add: getParallelSegments_def Let_def sqrt_100)

lemma exB_circle1: "getCircleIntersections 3 4 (- 9) 4 10 0 5 = None"
  using sqrt_65_ge
  by (simp add: getCircleIntersections_def getClosestPointOnSegment_def getLength_def EPS_def
      Let_def sqrt_144)

lemma exB_circle0: "getCircleIntersections 3 4 (- 9) 4 0 0 5 = None"
  by (simp add: getCircleIntersections_def getClosestPointOnSegment_def getLength_def EPS_def
      Let_def sqrt_144 sqrt_16 sqrt_9)

lemma exB_sides:
  "getLineIntersection 3 4 (- 9) 4 0 5 10 5 = None"
  "getLineIntersection 3 4 (- 9) 4 0 (- 5) 10 (- 5) = None"
  by (simp_all add: getLineIntersection_def)

lemma exB_no_crossing:
  "getCapsuleIntersection 3 4 (withinCapsule 3 4 0 0 10 0 5) (- 9) 4 0 0 10 0 5 = None"
  by (simp add: getCapsuleIntersection_def exB_inside exB_box exB_circle0 exB_circle1 exB_sides
      pushPair_def closerTo_def Let_def)

lemma exB_flags:
  "1 \<in> set (withinCapsule 3 4 0 0 10 0 5)" "1 \<notin> set (withinCapsule (- 9) 4 0 0 10 0 5)"
  by (simp_all add: exB_inside exB_outside)

lemma exB_step:
  "capsuleStep (Point 0 0) (Point 10 0) 5 0 [Point (- 9) 4, Point 3 4] exB_s0 = Some exB_s1"
proof -
  have "w_i exB_s0 = 0" by (simp add: exB_s0_def)
  then show ?thesis
    unfolding capsuleStep_def Let_def exB_s1_def
    by (simp add: exB_flags exB_no_crossing del: One_nat_def)
qed

lemma exB_loop: "capsuleLoop (Point 0 0) (Point 10 0) 5 0 exB_s0 = Some exB_s1"
proof -
  have a: "pointsAt (w_store exB_s0) 0 = Some [Point (- 9) 4, Point 3 4]" "w_i exB_s0 = 0"
    by (simp_all add: exB_s0_def pointsAt_def)
  have b: "pointsAt (w_store exB_s1) 0 = Some [Point (- 9) 4, Point 3 4]" "w_i exB_s1 = 1"
    by (simp_all add: exB_s0_def exB_s1_def pointsAt_def)
  have "capsuleLoop (Point 0 0) (Point 10 0) 5 0 exB_s1 = Some exB_s1"
    by (subst capsuleLoop.simps) (simp add: b)
  then show ?thesis
    by (subst capsuleLoop.simps) (simp add: a exB_step)
qed

lemma exB_flush:
  "flush True 0 exB_s1 =
     Some \<lparr>w_store = exB_final, w_newPaths = [exB_q],
           w_newPath = [(''coords'', Ref 2)], w_i = 1, w_last = 0\<rparr>"
  by (simp add: flush_def exB_s0_def exB_s1_def exB_final_def exB_q_def pointsAt_def slice_def
      assignCoords_def pushCopy_def createNewPath_def Let_def)

lemma exB_capsuleErase:
  "capsuleErase [Point 0 0, Point 10 0] 5 0 (exB_store, []) exB_path
     = Some (exB_final, [exB_q])"
proof -
  have co: "coordsOf exB_store exB_path = Some (0, [Point (- 9) 4, Point 3 4])"
    by (simp add: coordsOf_def exB_store_def exB_path_def)
  have sh: "newShell exB_store exB_path = Some (w_store exB_s0, w_newPath exB_s0)"
    by (simp add: newShell_def createNewPath_def exB_store_def exB_path_def clear_def exB_s0_def)
  have s0: "\<lparr>w_store = w_store exB_s0, w_newPaths = [], w_newPath = w_newPath exB_s0,
             w_i = 0, w_last = 0\<rparr> = exB_s0"
    by (simp add: exB_s0_def)
  show ?thesis
    by (simp add: capsuleErase_def co sh s0 exB_loop exB_flush Let_def)
qed

lemma exB_clean: "cleanPath [Point 0 0, Point 10 0] = Some [Point 0 0, Point 10 0]"
  by (simp add: cleanPath_def cleanLoop_0)

lemma exB_erase:
  "erase exB_store [exB_path] [Point 0 0, Point 10 0] 5
     = Some (exB_final, [exB_q])"
  by (simp add: erase_def exB_clean exB_capsuleErase)

text \<open>
  The same situation in \<^verbatim>\<open>pointErase\<close>: when \<open>p0\<close> is outside, \<open>p1\<close> is inside and no
  crossing is found, both \<^verbatim>\<open>i\<close> and \<^verbatim>\<open>last\<close> advance (\<^verbatim>\<open>last = ++i\<close> stands after the
  \<^verbatim>\<open>if\<close>). In \<^verbatim>\<open>capsuleErase\<close> only \<^verbatim>\<open>i\<close> advances.
\<close>

lemma pointStep_no_crossing:
  assumes "withinCircle (px (ps ! w_i s)) (py (ps ! w_i s)) eX eY r = 0"
    and "withinCircle (px (ps ! (w_i s + 1))) (py (ps ! (w_i s + 1))) eX eY r \<noteq> 0"
    and "getCircleIntersection (px (ps ! (w_i s + 1))) (py (ps ! (w_i s + 1)))
           (px (ps ! w_i s)) (py (ps ! w_i s)) eX eY r = None"
  shows "pointStep eX eY r a ps s = Some (s\<lparr>w_i := w_i s + 1, w_last := w_i s + 1\<rparr>)"
  using assms unfolding pointStep_def Let_def by simp

lemma capsuleStep_no_crossing:
  assumes "1 \<notin> set (withinCapsule (px (ps ! w_i s)) (py (ps ! w_i s))
                      (px e0) (py e0) (px e1) (py e1) r)"
    and "1 \<in> set (withinCapsule (px (ps ! (w_i s + 1))) (py (ps ! (w_i s + 1)))
                      (px e0) (py e0) (px e1) (py e1) r)"
    and "getCapsuleIntersection (px (ps ! (w_i s + 1))) (py (ps ! (w_i s + 1)))
           (withinCapsule (px (ps ! (w_i s + 1))) (py (ps ! (w_i s + 1)))
              (px e0) (py e0) (px e1) (py e1) r)
           (px (ps ! w_i s)) (py (ps ! w_i s)) (px e0) (py e0) (px e1) (py e1) r = None"
  shows "capsuleStep e0 e1 r a ps s = Some (s\<lparr>w_i := w_i s + 1\<rparr>)"
  using assms unfolding capsuleStep_def Let_def by (simp del: One_nat_def)

text \<open>
  Claim C4 says that the capsule pass has the control structure of the point pass, and
  in particular that, with \<open>p0\<close> outside, \<open>p1\<close> inside and no valid crossing, it resumes at
  \<open>p1\<close> with \<^verbatim>\<open>last\<close> advanced past \<open>p0\<close>, as the point pass does. In \<^verbatim>\<open>capsuleErase\<close> that
  branch is \<^verbatim>\<open>else i++\<close>: \<^verbatim>\<open>last\<close> stays. On the path (-9,4), (3,4) with the trail
  (0,0), (10,0) and radius 5 the single iteration ends with \<open>i = 1\<close> and \<open>last = 0\<close>, so
  the final flush emits the whole path, with its end point (3,4) inside the box of the
  capsule; with \<^verbatim>\<open>last\<close> advanced, as in \<^verbatim>\<open>pointErase\<close>, nothing would be emitted.
\<close>

theorem capsuleErase_leaves_last_behind:
  "capsuleStep (Point 0 0) (Point 10 0) 5 0 [Point (- 9) 4, Point 3 4] exB_s0 = Some exB_s1
   \<and> w_i exB_s1 = 1 \<and> w_last exB_s1 = 0
   \<and> erase exB_store [exB_path] [Point 0 0, Point 10 0] 5 = Some (exB_final, [exB_q])
   \<and> coordsOf exB_final exB_q = Some (3, [Point (- 9) 4, Point 3 4])
   \<and> withinBox 3 4 0 0 10 0 5 = 1"
proof -
  have "w_i exB_s1 = 1" "w_last exB_s1 = 0" by (simp_all add: exB_s1_def exB_s0_def)
  moreover have "coordsOf exB_final exB_q = Some (3, [Point (- 9) 4, Point 3 4])"
    by (simp add: coordsOf_def exB_final_def exB_q_def)
  moreover have "withinBox 3 4 0 0 10 0 5 = 1"
    using exB_inside by (simp add: withinCapsule_def)
  ultimately show ?thesis using exB_step exB_erase by blast
qed

theorem capsuleErase_leaves_last_behind_witness:
  "\<exists>a. coordsOf exB_final exB_q = Some (a, [Point (- 9) 4, Point 3 4])"
  using capsuleErase_leaves_last_behind by blast

section \<open>The diagonal scenario, evaluated\<close>

lemma sqrt2_sq [simp]: "sqrt 2 * sqrt 2 = 2" by simp
lemma sqrt2_bounds: "1 < sqrt 2" "sqrt 2 < 2" "0 < sqrt 2"
proof -
  show "1 < sqrt 2" by simp
  have "sqrt 2 < sqrt 4" by (rule real_sqrt_less_mono) simp
  then show "sqrt 2 < 2" by simp
  show "0 < sqrt 2" by simp
qed

lemma sqrt_20000: "sqrt 20000 = 100 * sqrt 2"
proof -
  have "sqrt 20000 = sqrt (10000 * 2)" by simp
  also have "\<dots> = sqrt 10000 * sqrt 2" by (rule real_sqrt_mult)
  also have "sqrt 10000 = 100" using real_sqrt_abs[of 100] by simp
  finally show ?thesis .
qed

lemma exC_closest: "getClosestPointOnSegment (0, 0) (100, 100) (50, 50) = (50, 50)"
proof -
  have len: "getLength (100, 100) = 100 * sqrt 2" by (simp add: getLength_def sqrt_20000)
  have k: "100 / sqrt 2 = 50 * sqrt 2"
    by (simp add: field_simps)
  have "\<not> 100 * sqrt 2 < EPS" using sqrt2_bounds unfolding EPS_def by linarith
  moreover have "\<not> 50 * sqrt 2 < 0" using sqrt2_bounds by linarith
  moreover have "\<not> 50 * sqrt 2 > 100 * sqrt 2" using sqrt2_bounds by linarith
  moreover have "100 * (50 * sqrt 2) / (100 * sqrt 2) = 50" by simp
  ultimately show ?thesis
    by (simp add: getClosestPointOnSegment_def Let_def len k)
qed

lemma exC_cross1: "getCircleIntersections 0 0 100 100 50 50 10 = Some (exC_X1, exC_X2)"
proof -
  have u: "10 / sqrt 2 = 5 * sqrt 2"
    by (simp add: field_simps)
  have ne: "sqrt 2 \<noteq> 10" using sqrt2_bounds by linarith
  show ?thesis
    using ne
    by (simp add: getCircleIntersections_def Let_def exC_closest getLength_def sqrt_20000
        sqrt_100 u exC_X1_def exC_X2_def)
qed


lemma exC_closest2:
  "getClosestPointOnSegment (50 + 5 * sqrt 2, 50 + 5 * sqrt 2) (100, 100) (50, 50)
     = (50 + 5 * sqrt 2, 50 + 5 * sqrt 2)"
proof -
  let ?d = "100 - (50 + 5 * sqrt 2)"
  let ?len = "getLength (?d, ?d)"
  have d: "40 < ?d" using sqrt2_bounds by linarith
  have "sqrt (?d * ?d) \<le> sqrt (?d * ?d + ?d * ?d)"
    by (rule real_sqrt_le_mono) simp
  moreover have "sqrt (?d * ?d) = ?d" using d by (simp add: real_sqrt_mult)
  ultimately have len: "40 < ?len" using d by (simp add: getLength_def)
  have nl: "\<not> ?len < EPS" using len unfolding EPS_def by linarith
  have "?d * (50 - (50 + 5 * sqrt 2)) < 0"
    using d sqrt2_bounds by (intro mult_pos_neg) linarith+
  then have "?d * (50 - (50 + 5 * sqrt 2)) + ?d * (50 - (50 + 5 * sqrt 2)) < 0" by linarith
  then have kn: "(?d * (50 - (50 + 5 * sqrt 2)) + ?d * (50 - (50 + 5 * sqrt 2))) / ?len < 0"
    using len by (intro divide_neg_pos) linarith+
  show ?thesis
    by (simp only: getClosestPointOnSegment_def Let_def fst_conv snd_conv nl kn if_False if_True)
qed

lemma exC_dist2: "getLength (50 + 5 * sqrt 2 - 50, 50 + 5 * sqrt 2 - 50) = 10"
proof -
  have "(5 * sqrt 2) * (5 * sqrt 2) = 50" by simp
  then show ?thesis by (simp add: getLength_def sqrt_100)
qed

lemma exC_cross2:
  "getCircleIntersections (px exC_X2) (py exC_X2) 100 100 50 50 10 = None"
  unfolding getCircleIntersections_def Let_def exC_X2_def point.sel
  by (simp only: exC_closest2 fst_conv snd_conv exC_dist2) simp

lemma exC_within:
  "withinCircle 0 0 50 50 10 = 0" "withinCircle 100 100 50 50 10 = 0"
  "withinCircle (px exC_X2) (py exC_X2) 50 50 10 = 0"
proof -
  have "10 \<le> sqrt 5000" using real_sqrt_le_mono[of 100 5000] by (simp add: sqrt_100)
  then show "withinCircle 0 0 50 50 10 = 0" "withinCircle 100 100 50 50 10 = 0"
    by (simp_all add: withinCircle_def getDistance_def)
  have "(5 * sqrt 2)\<^sup>2 = 50" by (simp add: power2_eq_square)
  then show "withinCircle (px exC_X2) (py exC_X2) 50 50 10 = 0"
    by (simp add: withinCircle_def getDistance_def exC_X2_def sqrt_100)
qed

lemma exC_on_circle:
  "getDistance (px exC_X1) (py exC_X1) 50 50 = 10"
  "getDistance (px exC_X2) (py exC_X2) 50 50 = 10"
proof -
  have "(5 * sqrt 2)\<^sup>2 = 50" by (simp add: power2_eq_square)
  then show "getDistance (px exC_X1) (py exC_X1) 50 50 = 10"
    "getDistance (px exC_X2) (py exC_X2) 50 50 = 10"
    by (simp_all add: getDistance_def exC_X1_def exC_X2_def sqrt_100)
qed


lemma exC_not_ends: "px exC_X1 \<noteq> 0" "px exC_X2 \<noteq> 100"
  using sqrt2_bounds by (simp_all add: exC_X1_def exC_X2_def)

lemma exC_step1: "pointStep 50 50 10 0 [Point 0 0, Point 100 100] exC_s0 = Some exC_s1"
proof -
  have sp: "splitAt 0 [Point 0 0, Point 100 100] (exC_X1, exC_X2) exC_s0 = Some exC_s1"
    using exC_not_ends
    by (simp add: exC_s0_def exC_s1_def exC_q1_def splitAt_def slice_def assignCoords_def
        pushCopy_def createNewPath_def writeCoord_def Let_def)
  have "w_i exC_s0 = 0" by (simp add: exC_s0_def)
  then show ?thesis
    unfolding pointStep_def Let_def
    by (simp add: exC_within exC_cross1 sp)
qed

lemma exC_step2: "pointStep 50 50 10 0 [exC_X2, Point 100 100] exC_s1 = Some exC_s2"
proof -
  have "w_i exC_s1 = 0" by (simp add: exC_s1_def)
  then show ?thesis
    unfolding pointStep_def Let_def exC_s2_def
    by (simp add: exC_within exC_cross2)
qed

lemma exC_loop: "pointLoop 50 50 10 0 exC_s0 = Some exC_s2"
proof -
  have a: "pointsAt (w_store exC_s0) 0 = Some [Point 0 0, Point 100 100]" "w_i exC_s0 = 0"
    by (simp_all add: exC_s0_def pointsAt_def)
  have b: "pointsAt (w_store exC_s1) 0 = Some [exC_X2, Point 100 100]" "w_i exC_s1 = 0"
    by (simp_all add: exC_s1_def pointsAt_def)
  have c: "pointsAt (w_store exC_s2) 0 = Some [exC_X2, Point 100 100]" "w_i exC_s2 = 1"
    by (simp_all add: exC_s1_def exC_s2_def pointsAt_def)
  have "pointLoop 50 50 10 0 exC_s2 = Some exC_s2"
    by (subst pointLoop.simps) (simp add: c)
  then have "pointLoop 50 50 10 0 exC_s1 = Some exC_s2"
    by (subst pointLoop.simps) (simp add: b exC_step2)
  then show ?thesis
    by (subst pointLoop.simps) (simp add: a exC_step1)
qed

lemma exC_flush:
  "flush False 0 exC_s2 =
     Some \<lparr>w_store = exC_final, w_newPaths = [exC_q1, exC_q2], w_newPath = exC_q2,
           w_i = 1, w_last = 0\<rparr>"
  by (simp add: flush_def exC_s2_def exC_s1_def exC_final_def exC_q2_def pointsAt_def slice_def
      assignCoords_def pushNewPath_def Let_def)

lemma exC_pointErase:
  "pointErase [Point 50 50] 10 (exC_store, []) exC_path = Some (exC_final, [exC_q1, exC_q2])"
proof -
  have co: "coordsOf exC_store exC_path = Some (0, [Point 0 0, Point 100 100])"
    by (simp add: coordsOf_def exC_store_def exC_path_def)
  have sh: "newShell exC_store exC_path = Some (w_store exC_s0, w_newPath exC_s0)"
    by (simp add: newShell_def createNewPath_def exC_store_def exC_path_def clear_def exC_s0_def)
  have s0: "\<lparr>w_store = w_store exC_s0, w_newPaths = [], w_newPath = w_newPath exC_s0,
             w_i = 0, w_last = 0\<rparr> = exC_s0"
    by (simp add: exC_s0_def)
  show ?thesis
    by (simp add: pointErase_def co sh s0 exC_loop exC_flush Let_def)
qed

lemma exC_erase:
  "erase exC_store [exC_path] [Point 50 50] 10 = Some (exC_final, [exC_q1, exC_q2])"
  by (simp add: erase_def cleanPath_def exC_pointErase)

text \<open>
  Claim C9: \<^verbatim>\<open>erase\<close> applied to the single path [(0,0), (100,100)] with the trail
  [(50,50)] and radius 10 returns exactly two sub-paths, [(0,0), X1] and
  [X2, (100,100)], where X1 and X2 lie on the line \<open>y = x\<close> at distance exactly 10 from
  (50,50). In real arithmetic X1 is (50 - 5 * sqrt 2, 50 - 5 * sqrt 2) and X2 is
  (50 + 5 * sqrt 2, 50 + 5 * sqrt 2).
\<close>

theorem erase_diagonal_scenario:
  "erase exC_store [exC_path] [Point 50 50] 10 = Some (exC_final, [exC_q1, exC_q2])
   \<and> coordsOf exC_store exC_path = Some (0, [Point 0 0, Point 100 100])
   \<and> coordsOf exC_final exC_q1 = Some (3, [Point 0 0, exC_X1])
   \<and> coordsOf exC_final exC_q2 = Some (4, [exC_X2, Point 100 100])
   \<and> py exC_X1 = px exC_X1 \<and> py exC_X2 = px exC_X2
   \<and> getDistance (px exC_X1) (py exC_X1) 50 50 = 10
   \<and> getDistance (px exC_X2) (py exC_X2) 50 50 = 10"
proof -
  have "coordsOf exC_store exC_path = Some (0, [Point 0 0, Point 100 100])"
    "coordsOf exC_final exC_q1 = Some (3, [Point 0 0, exC_X1])"
    "coordsOf exC_final exC_q2 = Some (4, [exC_X2, Point 100 100])"
    by (simp_all add: coordsOf_def exC_store_def exC_path_def exC_final_def exC_q1_def exC_q2_def)
  moreover have "py exC_X1 = px exC_X1" "py exC_X2 = px exC_X2"
    by (simp_all add: exC_X1_def exC_X2_def)
  ultimately show ?thesis using exC_erase exC_on_circle by blast
qed

theorem erase_diagonal_scenario_witness:
  "\<exists>h' q1 q2 a1 a2 X1 X2.
      erase exC_store [exC_path] [Point 50 50] 10 = Some (h', [q1, q2])
      \<and> coordsOf h' q1 = Some (a1, [Point 0 0, X1])
      \<and> coordsOf h' q2 = Some (a2, [X2, Point 100 100])
      \<and> getDistance (px X1) (py X1) 50 50 = 10
      \<and> getDistance (px X2) (py X2) 50 50 = 10"
  using erase_diagonal_scenario by blast

section \<open>Behaviour that depends on rounding\<close>

text \<open>
  Numbers are real numbers in this theory, and the source computes in float64. The
  theorems above are about the structure of the passes, or about inputs on which the
  source takes the same branches as the model. Three claims are decided by rounding and
  underflow instead, and no theorem of this theory speaks for them.

  Claims C5 and C10. For the trail [(0,0), (1e-200,0)] \<^verbatim>\<open>cleanPath\<close> keeps both points,
  since they differ. In \<^verbatim>\<open>withinBox\<close> the square \<^verbatim>\<open>Math.pow(1e-200, 2)\<close> underflows to 0,
  so \<^verbatim>\<open>mag_ab\<close> and \<^verbatim>\<open>mag_n\<close> are 0, the unit vectors and both projections are not
  numbers, neither \<^verbatim>\<open>return 0\<close> is taken and the function returns 1 for every point:
  the first branch of \<open>withinBox\<close>, which the model reaches only when A and B are the
  same point. Both points of the path [(100,100), (200,200)] then count as inside the
  capsule, and \<^verbatim>\<open>erase\<close> with radius 5 returns no path at all.

  Claim C7. For the path [(-6,0), (3,-1)], the trail [(0,0)] and radius 1 the second
  crossing found by \<^verbatim>\<open>getCircleIntersections\<close> is written to \<^verbatim>\<open>path.coords[0]\<close>; in float64
  \<^verbatim>\<open>getDistance\<close> puts it at 0.9999999999999999 from the centre, inside the circle. From
  then on every iteration takes the branch for \<open>p0\<close> inside and \<open>p1\<close> outside:
  \<^verbatim>\<open>getCircleIntersection\<close> returns a point that differs from \<^verbatim>\<open>path.coords[0]\<close> in the
  last bit and is again inside the circle, it is written to \<^verbatim>\<open>path.coords[0]\<close> and the
  index stays. The call does not return.
\<close>

end
